theory Spec2Isabelle
  imports Complex_Main "HOL-Library.Log_Nat"
begin

section \<open>Errors\<close>

text \<open>
  Every operation of \<^verbatim>\<open>mcp-http-server.py\<close> wraps its body in
  \<^verbatim>\<open>try: ... except Exception as e: raise HTTPException(status_code=400, detail=f"...{str(e)}")\<close>.
  A Python exception is modelled by its class and the text \<^verbatim>\<open>str(e)\<close> gives; the
  operation returns \<open>Inl\<close> of the HTTP exception or \<open>Inr\<close> of its result. Status 400 is
  the class of error the specification calls \<^verbatim>\<open>invalid_input\<close>.
\<close>

datatype py_exception =
    ValueError string
  | ZeroDivisionError string
  | OverflowError string
  | StatisticsError string

fun str_exc :: "py_exception \<Rightarrow> string" where
  "str_exc (ValueError m) = m"
| "str_exc (ZeroDivisionError m) = m"
| "str_exc (OverflowError m) = m"
| "str_exc (StatisticsError m) = m"

datatype http_exception = HTTPException nat string

fun status_code :: "http_exception \<Rightarrow> nat" where
  "status_code (HTTPException s d) = s"

fun detail :: "http_exception \<Rightarrow> string" where
  "detail (HTTPException s d) = d"

definition invalid_input :: "http_exception + 'a \<Rightarrow> bool" where
  "invalid_input r = (case r of Inl e \<Rightarrow> status_code e = 400 | Inr v \<Rightarrow> False)"

definition http_400 :: "string \<Rightarrow> py_exception + 'a \<Rightarrow> http_exception + 'a" where
  "http_400 prefix r =
     (case r of Inl e \<Rightarrow> Inl (HTTPException 400 (prefix @ str_exc e)) | Inr v \<Rightarrow> Inr v)"

section \<open>Text\<close>

text \<open>
  Text is modelled as ASCII: a \<^typ>\<open>string\<close> is a list of characters, and the character
  tests below are Python's \<^verbatim>\<open>str\<close> methods on the code points 0 to 127. Python's
  methods treat many code points above 127 as letters or spaces and can change the
  length of a text when they change its case; none of that is modelled, so every
  property below that ranges over texts is stated for texts that satisfy \<open>is_ascii\<close>.
\<close>

definition is_ascii :: "string \<Rightarrow> bool" where
  "is_ascii s = list_all (\<lambda>c. (of_char c :: nat) < 128) s"

definition isspace :: "char \<Rightarrow> bool" where
  "isspace c = ((of_char c :: nat) \<in> {9, 10, 11, 12, 13, 28, 29, 30, 31, 32})"

definition isupper :: "char \<Rightarrow> bool" where
  "isupper c = (65 \<le> (of_char c :: nat) \<and> (of_char c :: nat) \<le> 90)"

definition islower :: "char \<Rightarrow> bool" where
  "islower c = (97 \<le> (of_char c :: nat) \<and> (of_char c :: nat) \<le> 122)"

definition isdigit :: "char \<Rightarrow> bool" where
  "isdigit c = (48 \<le> (of_char c :: nat) \<and> (of_char c :: nat) \<le> 57)"

definition isalpha :: "char \<Rightarrow> bool" where
  "isalpha c = (isupper c \<or> islower c)"

definition isalnum :: "char \<Rightarrow> bool" where
  "isalnum c = (isalpha c \<or> isdigit c)"

definition lower_chr :: "char \<Rightarrow> char" where
  "lower_chr c = (if isupper c then char_of ((of_char c :: nat) + 32) else c)"

definition upper_chr :: "char \<Rightarrow> char" where
  "upper_chr c = (if islower c then char_of ((of_char c :: nat) - 32) else c)"

definition py_lower :: "string \<Rightarrow> string" where
  "py_lower s = map lower_chr s"

definition py_upper :: "string \<Rightarrow> string" where
  "py_upper s = map upper_chr s"

text \<open>
  \<^verbatim>\<open>str.title()\<close>: a character that follows a cased character is lowercased, any
  other character is uppercased (titlecased); characters without case stay as they are
  and end the word.
\<close>

fun title_from :: "bool \<Rightarrow> string \<Rightarrow> string" where
  "title_from previous_is_cased [] = []"
| "title_from previous_is_cased (c # cs) =
     (if previous_is_cased then lower_chr c else upper_chr c) # title_from (isalpha c) cs"

definition py_title :: "string \<Rightarrow> string" where
  "py_title s = title_from False s"

text \<open>\<^verbatim>\<open>str.split()\<close> with no argument: the maximal runs of characters that are not whitespace.\<close>

fun split_from :: "string \<Rightarrow> string \<Rightarrow> string list" where
  "split_from cur [] = (if cur = [] then [] else [cur])"
| "split_from cur (c # cs) =
     (if isspace c then (if cur = [] then split_from [] cs else cur # split_from [] cs)
      else split_from (cur @ [c]) cs)"

definition py_split :: "string \<Rightarrow> string list" where
  "py_split s = split_from [] s"

text \<open>\<^verbatim>\<open>sep.join(parts)\<close>.\<close>

fun py_join :: "string \<Rightarrow> string list \<Rightarrow> string" where
  "py_join sep [] = []"
| "py_join sep [x] = x"
| "py_join sep (x # y # ys) = x @ sep @ py_join sep (y # ys)"

text \<open>\<^verbatim>\<open>c in s\<close> for a single character \<open>c\<close>.\<close>

definition in_str :: "char \<Rightarrow> string \<Rightarrow> bool" where
  "in_str c s = (c \<in> set s)"

subsection \<open>transform\_text\<close>

text \<open>
  The inner loop of the pig-latin branch,
  \<^verbatim>\<open>for i, char in enumerate(clean_word.lower()): if char in 'aeiou': first_vowel = i; break\<close>
  with its \<^verbatim>\<open>else\<close> clause: \<open>Some i\<close> is the index at the \<^verbatim>\<open>break\<close>, \<open>None\<close> is
  the loop running to its end.
\<close>

fun find_first_vowel :: "nat \<Rightarrow> string \<Rightarrow> nat option" where
  "find_first_vowel i [] = None"
| "find_first_vowel i (char # cs) =
     (if in_str char ''aeiou'' then Some i else find_first_vowel (Suc i) cs)"

text \<open>
  The body of \<^verbatim>\<open>for word in words\<close>: \<open>pig_word\<close> is the value the branch
  \<^verbatim>\<open>if clean_word:\<close> assigns, \<open>pig_latin_word\<close> the string appended to
  \<^verbatim>\<open>pig_latin_words\<close>.
\<close>

definition pig_word :: "string \<Rightarrow> string" where
  "pig_word clean_word =
     (if in_str (lower_chr (hd clean_word)) ''aeiou'' then clean_word @ ''way''
      else
        (let first_vowel =
               (case find_first_vowel 0 (py_lower clean_word) of
                  Some i \<Rightarrow> i
                | None \<Rightarrow> length clean_word)
         in drop first_vowel clean_word @ take first_vowel clean_word @ ''ay''))"

definition pig_latin_word :: "string \<Rightarrow> string" where
  "pig_latin_word word =
     (let (punctuation, clean_word) =
            (if word \<noteq> [] \<and> in_str (last word) ''.,!?;:''
             then ([last word], butlast word) else ([], word))
      in if clean_word \<noteq> [] then pig_word clean_word @ punctuation else word)"

fun pig_latin_loop :: "string list \<Rightarrow> string list \<Rightarrow> string list" where
  "pig_latin_loop [] pig_latin_words = pig_latin_words"
| "pig_latin_loop (word # words) pig_latin_words =
     pig_latin_loop words (pig_latin_words @ [pig_latin_word word])"

definition transform_body :: "string \<Rightarrow> string \<Rightarrow> py_exception + string" where
  "transform_body text transformation =
     (if transformation = ''upper'' then Inr (py_upper text)
      else if transformation = ''lower'' then Inr (py_lower text)
      else if transformation = ''title'' then Inr (py_title text)
      else if transformation = ''reverse'' then Inr (rev text)
      else if transformation = ''pig_latin'' then
        Inr (py_join '' '' (pig_latin_loop (py_split text) []))
      else Inl (ValueError (''Unknown transformation: '' @ transformation)))"

definition transform_text :: "string \<Rightarrow> string \<Rightarrow> http_exception + string" where
  "transform_text text transformation =
     http_400 ''Error transforming text: '' (transform_body text transformation)"

subsection \<open>The transformations as the specification words them\<close>

text \<open>
  The pig-latin rule read word for word: one trailing character of \<^verbatim>\<open>.,!?;:\<close> is
  detached; a word starting with a vowel gets \<^verbatim>\<open>way\<close>; otherwise the consonants before
  the first vowel (the whole word when it has no vowel) move to the end and \<^verbatim>\<open>ay\<close> is
  appended; the punctuation is put back; the words are joined with single spaces.
\<close>

definition is_vowel :: "char \<Rightarrow> bool" where
  "is_vowel c = in_str (lower_chr c) ''aeiou''"

definition detach_punctuation :: "string \<Rightarrow> string \<times> string" where
  "detach_punctuation word =
     (if word \<noteq> [] \<and> in_str (last word) ''.,!?;:'' then (butlast word, [last word])
      else (word, []))"

definition rotate_cluster :: "string \<Rightarrow> string" where
  "rotate_cluster w =
     (if w \<noteq> [] \<and> is_vowel (hd w) then w @ ''way''
      else dropWhile (\<lambda>c. \<not> is_vowel c) w @ takeWhile (\<lambda>c. \<not> is_vowel c) w @ ''ay'')"

definition claimed_pig_word :: "string \<Rightarrow> string" where
  "claimed_pig_word word =
     (case detach_punctuation word of (w, p) \<Rightarrow> rotate_cluster w @ p)"

definition claimed_pig_latin :: "string \<Rightarrow> string" where
  "claimed_pig_latin text = py_join '' '' (map claimed_pig_word (py_split text))"

text \<open>
  The same rule with the sentence of the specification that the code's last branch
  implements: a token that is empty once its punctuation is detached passes through
  unchanged.
\<close>

definition spec_pig_word :: "string \<Rightarrow> string" where
  "spec_pig_word word =
     (case detach_punctuation word of (w, p) \<Rightarrow> if w = [] then word else rotate_cluster w @ p)"

definition spec_pig_latin :: "string \<Rightarrow> string" where
  "spec_pig_latin text = py_join '' '' (map spec_pig_word (py_split text))"

text \<open>
  Title case as the claim words it: the first character of every whitespace-delimited
  word is capitalised and nothing else changes.
\<close>

fun capitalize_from :: "bool \<Rightarrow> string \<Rightarrow> string" where
  "capitalize_from at_word_start [] = []"
| "capitalize_from at_word_start (c # cs) =
     (if at_word_start then upper_chr c else c) # capitalize_from (isspace c) cs"

definition claimed_title :: "string \<Rightarrow> string" where
  "claimed_title text = capitalize_from True text"

text \<open>
  Title case as the code computes it, position by position: a letter that follows a
  letter is lowercased, every other character is uppercased.
\<close>

definition title_at :: "string \<Rightarrow> nat \<Rightarrow> char" where
  "title_at text i =
     (if 0 < i \<and> isalpha (text ! (i - 1)) then lower_chr (text ! i) else upper_chr (text ! i))"

section \<open>Regular expressions\<close>

text \<open>
  \<^verbatim>\<open>extract_information\<close> hands five pattern literals to \<^verbatim>\<open>re.findall\<close>.
  The patterns are modelled by their syntax trees and \<^verbatim>\<open>re\<close> by a backtracking
  matcher over them: \<open>matches r s\<close> lists, in the order in which backtracking tries
  them, the states the matcher can reach from \<open>s\<close> by matching \<open>r\<close>; the first one that
  completes the whole pattern is the match Python reports. Quantifiers are greedy.
  The classes \<^verbatim>\<open>\d\<close>, \<^verbatim>\<open>\s\<close> and the word characters of \<^verbatim>\<open>\b\<close> are Python's on the
  code points 0 to 127; above 127 Python has further digits, spaces and word characters,
  so a property that ranges over texts is stated for texts that satisfy \<open>is_ascii\<close>.
\<close>

datatype char_item =
    One char
  | Range char char
  | Digits
  | Spaces

fun item_matches :: "char_item \<Rightarrow> char \<Rightarrow> bool" where
  "item_matches (One a) c = (c = a)"
| "item_matches (Range a b) c =
     ((of_char a :: nat) \<le> of_char c \<and> (of_char c :: nat) \<le> of_char b)"
| "item_matches Digits c = isdigit c"
| "item_matches Spaces c = isspace c"

datatype regex =
    Eps
  | Lit char
  | CharSet "char_item list"
  | WordBoundary
  | Cat regex regex
  | Alt regex regex
  | Repeat regex nat "nat option"
  | Group nat regex

text \<open>
  A matcher state: the character before the current position (for \<^verbatim>\<open>\b\<close>), the
  text from the current position on, and the capture groups closed so far.
\<close>

record mstate =
  prev :: "char option"
  rest :: string
  groups :: "(nat \<times> string) list"

definition is_word_char :: "char \<Rightarrow> bool" where
  "is_word_char c = (isalnum c \<or> c = CHR ''_'')"

definition at_boundary :: "mstate \<Rightarrow> bool" where
  "at_boundary s =
     ((case prev s of None \<Rightarrow> False | Some c \<Rightarrow> is_word_char c) \<noteq>
      (case rest s of [] \<Rightarrow> False | c # cs \<Rightarrow> is_word_char c))"

definition advance :: "(char \<Rightarrow> bool) \<Rightarrow> mstate \<Rightarrow> mstate list" where
  "advance p s =
     (case rest s of
        [] \<Rightarrow> []
      | c # cs \<Rightarrow> if p c then [s\<lparr>prev := Some c, rest := cs\<rparr>] else [])"

definition consumed :: "mstate \<Rightarrow> mstate \<Rightarrow> string" where
  "consumed s s' = take (length (rest s) - length (rest s')) (rest s)"

text \<open>
  Greedy repetition \<^verbatim>\<open>{m,n}\<close> (\<open>None\<close> for no upper bound): one more iteration is tried
  before stopping, and stopping is allowed once the minimum is reached. Every iteration
  must consume a character, so the length of the remaining text, passed as \<open>k\<close>, bounds
  the number of iterations.
\<close>

fun repeat :: "(mstate \<Rightarrow> mstate list) \<Rightarrow> nat \<Rightarrow> nat \<Rightarrow> nat option \<Rightarrow> mstate \<Rightarrow> mstate list" where
  "repeat step 0 m n s = (if m = 0 then [s] else [])"
| "repeat step (Suc k) m n s =
     (if n = Some 0 then []
      else concat (map (repeat step k (m - 1) (map_option (\<lambda>j. j - 1) n))
             (filter (\<lambda>s'. length (rest s') < length (rest s)) (step s)))) @
     (if m = 0 then [s] else [])"

primrec matches :: "regex \<Rightarrow> mstate \<Rightarrow> mstate list" where
  "matches Eps = (\<lambda>s. [s])"
| "matches (Lit a) = advance (\<lambda>c. c = a)"
| "matches (CharSet items) = advance (\<lambda>c. list_ex (\<lambda>i. item_matches i c) items)"
| "matches WordBoundary = (\<lambda>s. if at_boundary s then [s] else [])"
| "matches (Cat r1 r2) = (\<lambda>s. concat (map (matches r2) (matches r1 s)))"
| "matches (Alt r1 r2) = (\<lambda>s. matches r1 s @ matches r2 s)"
| "matches (Repeat r m n) = (\<lambda>s. repeat (matches r) (length (rest s)) m n s)"
| "matches (Group g r) =
     (\<lambda>s. map (\<lambda>s'. s'\<lparr>groups := (g, consumed s s') # groups s'\<rparr>) (matches r s))"

text \<open>
  \<^verbatim>\<open>re.findall\<close>: the leftmost match from each position, scanning on from the end of
  the last match. \<open>skip\<close> counts the characters still covered by the last match. Each
  match is reported with its text and its groups.
\<close>

fun scan :: "regex \<Rightarrow> nat \<Rightarrow> char option \<Rightarrow> string \<Rightarrow> (string \<times> (nat \<times> string) list) list" where
  "scan r skip p [] =
     (if skip = 0 then
        (case matches r \<lparr>prev = p, rest = [], groups = []\<rparr> of
           [] \<Rightarrow> []
         | s' # other \<Rightarrow> [([], groups s')])
      else [])"
| "scan r skip p (c # cs) =
     (if 0 < skip then scan r (skip - 1) (Some c) cs
      else
        (case matches r \<lparr>prev = p, rest = c # cs, groups = []\<rparr> of
           [] \<Rightarrow> scan r 0 (Some c) cs
         | s' # other \<Rightarrow>
             (let n = length (c # cs) - length (rest s')
              in (take n (c # cs), groups s') # scan r (n - 1) (Some c) cs)))"

definition re_findall :: "regex \<Rightarrow> string \<Rightarrow> (string \<times> (nat \<times> string) list) list" where
  "re_findall r text = scan r 0 None text"

definition group_text :: "(nat \<times> string) list \<Rightarrow> nat \<Rightarrow> string" where
  "group_text gs g = (case map_of gs g of None \<Rightarrow> [] | Some w \<Rightarrow> w)"

subsection \<open>The patterns\<close>

fun seq :: "regex list \<Rightarrow> regex" where
  "seq [] = Eps"
| "seq [r] = r"
| "seq (r # rs) = Cat r (seq rs)"

definition lits :: "string \<Rightarrow> regex" where
  "lits s = seq (map Lit s)"

definition opt :: "regex \<Rightarrow> regex" where
  "opt r = Repeat r 0 (Some 1)"

definition plus :: "regex \<Rightarrow> regex" where
  "plus r = Repeat r 1 None"

definition digit :: regex where
  "digit = CharSet [Digits]"

definition separator :: regex where
  "separator = CharSet [One CHR ''-'', One CHR ''.'', Spaces]"

definition hex_digit :: regex where
  "hex_digit = CharSet [Range CHR ''0'' CHR ''9'', Range CHR ''a'' CHR ''f'', Range CHR ''A'' CHR ''F'']"

text \<open>\<^verbatim>\<open>\b[A-Za-z0-9._%+-]+@[A-Za-z0-9.-]+\.[A-Z|a-z]{2,}\b\<close>\<close>

definition emails_pattern :: regex where
  "emails_pattern =
     seq [WordBoundary,
          plus (CharSet [Range CHR ''A'' CHR ''Z'', Range CHR ''a'' CHR ''z'',
                         Range CHR ''0'' CHR ''9'', One CHR ''.'', One CHR ''_'', One CHR ''%'',
                         One CHR ''+'', One CHR ''-'']),
          Lit CHR ''@'',
          plus (CharSet [Range CHR ''A'' CHR ''Z'', Range CHR ''a'' CHR ''z'',
                         Range CHR ''0'' CHR ''9'', One CHR ''.'', One CHR ''-'']),
          Lit CHR ''.'',
          Repeat (CharSet [Range CHR ''A'' CHR ''Z'', One CHR ''|'', Range CHR ''a'' CHR ''z''])
            2 None,
          WordBoundary]"

text \<open>\<^verbatim>\<open>http[s]?://(?:[a-zA-Z]|[0-9]|[$-_@.&+]|[!*\\(\\),]|(?:%[0-9a-fA-F][0-9a-fA-F]))+\<close>\<close>

definition urls_pattern :: regex where
  "urls_pattern =
     seq [lits ''http'', opt (CharSet [One CHR ''s'']), lits ''://'',
          plus (Alt (CharSet [Range CHR ''a'' CHR ''z'', Range CHR ''A'' CHR ''Z''])
               (Alt (CharSet [Range CHR ''0'' CHR ''9''])
               (Alt (CharSet [Range CHR ''$'' CHR ''_'', One CHR ''@'', One CHR ''.'',
                              One CHR ''&'', One CHR ''+''])
               (Alt (CharSet [One CHR ''!'', One CHR ''*'', One (CHR 0x5C), One CHR ''('',
                              One (CHR 0x5C), One CHR '')'', One CHR '',''])
                    (seq [Lit CHR ''%'', hex_digit, hex_digit])))))]"

text \<open>\<^verbatim>\<open>\b(?:\+?1[-.\s]?)?\(?([0-9]{3})\)?[-.\s]?([0-9]{3})[-.\s]?([0-9]{4})\b\<close>\<close>

definition phone_numbers_pattern :: regex where
  "phone_numbers_pattern =
     seq [WordBoundary,
          opt (seq [opt (Lit CHR ''+''), Lit CHR ''1'', opt separator]),
          opt (Lit CHR ''(''),
          Group 1 (Repeat (CharSet [Range CHR ''0'' CHR ''9'']) 3 (Some 3)),
          opt (Lit CHR '')''),
          opt separator,
          Group 2 (Repeat (CharSet [Range CHR ''0'' CHR ''9'']) 3 (Some 3)),
          opt separator,
          Group 3 (Repeat (CharSet [Range CHR ''0'' CHR ''9'']) 4 (Some 4)),
          WordBoundary]"

text \<open>\<^verbatim>\<open>\b(?:\d{1,2}[/-]\d{1,2}[/-]\d{2,4}|\d{4}[/-]\d{1,2}[/-]\d{1,2})\b\<close>\<close>

definition dates_pattern :: regex where
  "dates_pattern =
     seq [WordBoundary,
          Alt (seq [Repeat digit 1 (Some 2), CharSet [One CHR ''/'', One CHR ''-''],
                    Repeat digit 1 (Some 2), CharSet [One CHR ''/'', One CHR ''-''],
                    Repeat digit 2 (Some 4)])
              (seq [Repeat digit 4 (Some 4), CharSet [One CHR ''/'', One CHR ''-''],
                    Repeat digit 1 (Some 2), CharSet [One CHR ''/'', One CHR ''-''],
                    Repeat digit 1 (Some 2)]),
          WordBoundary]"

text \<open>\<^verbatim>\<open>\b\d+(?:\.\d+)?\b\<close>\<close>

definition numbers_pattern :: regex where
  "numbers_pattern =
     seq [WordBoundary, plus digit, opt (seq [Lit CHR ''.'', plus digit]), WordBoundary]"

subsection \<open>extract\_information\<close>

text \<open>The dictionary \<^verbatim>\<open>patterns\<close>, in the order of its keys.\<close>

definition patterns :: "(string \<times> regex) list" where
  "patterns =
     [(''emails'', emails_pattern),
      (''urls'', urls_pattern),
      (''phone_numbers'', phone_numbers_pattern),
      (''dates'', dates_pattern),
      (''numbers'', numbers_pattern)]"

text \<open>\<^verbatim>\<open>f"({match[0]}) {match[1]}-{match[2]}"\<close>\<close>

definition format_phone :: "(nat \<times> string) list \<Rightarrow> string" where
  "format_phone gs =
     ''('' @ group_text gs 1 @ '') '' @ group_text gs 2 @ ''-'' @ group_text gs 3"

definition extract_body :: "string \<Rightarrow> string \<Rightarrow> py_exception + string list" where
  "extract_body text extraction_type =
     (case map_of patterns extraction_type of
        None \<Rightarrow>
          (let available_types = py_join '', '' (map fst patterns)
           in Inl (ValueError (''Unknown extraction type '' @ [CHR 0x27] @ extraction_type @
                [CHR 0x27] @ ''. Available: '' @ available_types)))
      | Some pattern \<Rightarrow>
          (let found = re_findall pattern text
           in if extraction_type = ''phone_numbers''
              then Inr (map (\<lambda>m. format_phone (snd m)) found)
              else Inr (map fst found)))"

definition extract_information :: "string \<Rightarrow> string \<Rightarrow> http_exception + string list" where
  "extract_information text extraction_type =
     http_400 ''Error extracting information: '' (extract_body text extraction_type)"

text \<open>A pattern with no capture group.\<close>

fun capture_free :: "regex \<Rightarrow> bool" where
  "capture_free (Group g r) = False"
| "capture_free (Cat r1 r2) = (capture_free r1 \<and> capture_free r2)"
| "capture_free (Alt r1 r2) = (capture_free r1 \<and> capture_free r2)"
| "capture_free (Repeat r m n) = capture_free r"
| "capture_free r = True"

section \<open>Floats\<close>

text \<open>
  The request models declare every number as \<^verbatim>\<open>float\<close>, so the operations receive
  Python floats: IEEE 754 binary64 values. A finite float is modelled by the rational
  number it denotes, with the negative zero, the two infinities and NaN as values of
  their own; \<open>Fin 0\<close> is the positive zero. Arithmetic computes the exact rational result
  and rounds it to the nearest binary64 value, ties to even.
\<close>

datatype pyfloat = Fin rat | NegZero | PosInf | NegInf | NaN

text \<open>Rounding a rational to the nearest integer, ties to even.\<close>

definition rhe :: "rat \<Rightarrow> int" where
  "rhe x =
     (let f = \<lfloor>x\<rfloor>; d = x - of_int f
      in if d < 1 / 2 then f else if 1 / 2 < d then f + 1 else if even f then f else f + 1)"

text \<open>The binary exponent of a positive rational: \<open>2 powi flog2 q \<le> q < 2 powi (flog2 q + 1)\<close>.\<close>

definition flog2 :: "rat \<Rightarrow> int" where
  "flog2 q =
     (case quotient_of q of
        (n, d) \<Rightarrow> let k = bitlen n - bitlen d in if 2 powi k \<le> q then k else k - 1)"

text \<open>
  \<open>grid e x\<close> is the multiple of \<open>2 powi e\<close> nearest to \<open>x\<close>, ties to even. \<open>rnd q\<close> is
  the nearest number with a 53-bit significand and an exponent of at least \<open>-1074\<close>
  (the subnormal range), before the check for overflow.
\<close>

definition grid :: "int \<Rightarrow> rat \<Rightarrow> rat" where
  "grid e x = of_int (rhe (x / 2 powi e)) * 2 powi e"

definition rnd :: "rat \<Rightarrow> rat" where
  "rnd q = (if q = 0 then 0 else grid (max (flog2 \<bar>q\<bar> - 52) (- 1074)) q)"

text \<open>
  The float for an exact result \<open>q\<close>: an infinity when the rounded value reaches
  \<open>2 ^ 1024\<close> (its binary exponent is 1024 or more), a zero with the sign of \<open>q\<close> when
  it underflows.
\<close>

definition round_float :: "rat \<Rightarrow> pyfloat" where
  "round_float q =
     (let r = rnd q
      in if r = 0 then (if q < 0 then NegZero else Fin 0)
         else if 1024 \<le> flog2 \<bar>r\<bar> then (if r < 0 then NegInf else PosInf)
         else Fin r)"

text \<open>
  A float that is a number: finite, and a value binary64 has. The specification's
  ``number'' is read as this.
\<close>

fun is_number :: "pyfloat \<Rightarrow> bool" where
  "is_number (Fin q) = (rnd q = q \<and> (q = 0 \<or> flog2 \<bar>q\<bar> < 1024))"
| "is_number NegZero = True"
| "is_number x = False"

fun is_finite :: "pyfloat \<Rightarrow> bool" where
  "is_finite (Fin q) = True"
| "is_finite NegZero = True"
| "is_finite x = False"

fun is_inf :: "pyfloat \<Rightarrow> bool" where
  "is_inf PosInf = True"
| "is_inf NegInf = True"
| "is_inf x = False"

fun is_zero :: "pyfloat \<Rightarrow> bool" where
  "is_zero (Fin q) = (q = 0)"
| "is_zero NegZero = True"
| "is_zero x = False"

fun fval :: "pyfloat \<Rightarrow> rat" where
  "fval (Fin q) = q"
| "fval x = 0"

fun sign_bit :: "pyfloat \<Rightarrow> bool" where
  "sign_bit (Fin q) = (q < 0)"
| "sign_bit NegZero = True"
| "sign_bit NegInf = True"
| "sign_bit x = False"

definition signed_zero :: "bool \<Rightarrow> pyfloat" where
  "signed_zero negative = (if negative then NegZero else Fin 0)"

definition signed_inf :: "bool \<Rightarrow> pyfloat" where
  "signed_inf negative = (if negative then NegInf else PosInf)"

subsection \<open>Comparison\<close>

text \<open>
  Python's \<^verbatim>\<open><\<close>, \<^verbatim>\<open>==\<close> and \<^verbatim>\<open><=\<close> on floats: by value, the two zeros equal, every
  comparison with NaN false.
\<close>

fun rank :: "pyfloat \<Rightarrow> int" where
  "rank PosInf = 1"
| "rank NegInf = - 1"
| "rank x = 0"

definition flt :: "pyfloat \<Rightarrow> pyfloat \<Rightarrow> bool" where
  "flt x y =
     (x \<noteq> NaN \<and> y \<noteq> NaN \<and> (rank x < rank y \<or> rank x = rank y \<and> fval x < fval y))"

definition feq :: "pyfloat \<Rightarrow> pyfloat \<Rightarrow> bool" where
  "feq x y = (x \<noteq> NaN \<and> y \<noteq> NaN \<and> rank x = rank y \<and> fval x = fval y)"

definition fle :: "pyfloat \<Rightarrow> pyfloat \<Rightarrow> bool" where
  "fle x y = (flt x y \<or> feq x y)"

definition fgt :: "pyfloat \<Rightarrow> pyfloat \<Rightarrow> bool" where
  "fgt x y = flt y x"

definition fge :: "pyfloat \<Rightarrow> pyfloat \<Rightarrow> bool" where
  "fge x y = fle y x"

subsection \<open>Arithmetic\<close>

fun fneg :: "pyfloat \<Rightarrow> pyfloat" where
  "fneg (Fin q) = (if q = 0 then NegZero else Fin (- q))"
| "fneg NegZero = Fin 0"
| "fneg PosInf = NegInf"
| "fneg NegInf = PosInf"
| "fneg NaN = NaN"

definition fadd :: "pyfloat \<Rightarrow> pyfloat \<Rightarrow> pyfloat" where
  "fadd x y =
     (if x = NaN \<or> y = NaN then NaN
      else if is_inf x then (if is_inf y \<and> y \<noteq> x then NaN else x)
      else if is_inf y then y
      else if fval x + fval y = 0 then signed_zero (x = NegZero \<and> y = NegZero)
      else round_float (fval x + fval y))"

definition fsub :: "pyfloat \<Rightarrow> pyfloat \<Rightarrow> pyfloat" where
  "fsub x y = fadd x (fneg y)"

definition fmul :: "pyfloat \<Rightarrow> pyfloat \<Rightarrow> pyfloat" where
  "fmul x y =
     (if x = NaN \<or> y = NaN then NaN
      else if is_inf x \<or> is_inf y then
        (if is_zero x \<or> is_zero y then NaN else signed_inf (sign_bit x \<noteq> sign_bit y))
      else if fval x * fval y = 0 then signed_zero (sign_bit x \<noteq> sign_bit y)
      else round_float (fval x * fval y))"

text \<open>\<^verbatim>\<open>x / y\<close>: Python raises \<^verbatim>\<open>ZeroDivisionError\<close> for every \<open>x\<close> when \<open>y\<close> is a zero.\<close>

definition ftruediv :: "pyfloat \<Rightarrow> pyfloat \<Rightarrow> py_exception + pyfloat" where
  "ftruediv x y =
     (if is_zero y then Inl (ZeroDivisionError ''float division by zero'')
      else if x = NaN \<or> y = NaN then Inr NaN
      else if is_inf x then
        (if is_inf y then Inr NaN else Inr (signed_inf (sign_bit x \<noteq> sign_bit y)))
      else if is_inf y \<or> fval x = 0 then Inr (signed_zero (sign_bit x \<noteq> sign_bit y))
      else Inr (round_float (fval x / fval y)))"

text \<open>
  \<^verbatim>\<open>x ** 2\<close>. CPython settles the special cases itself: NaN gives NaN, an infinity the
  positive infinity, a zero the positive zero, and \<^verbatim>\<open>1.0\<close> and \<^verbatim>\<open>-1.0\<close> give \<^verbatim>\<open>1.0\<close>.
  For every other base it calls the C library's \<^verbatim>\<open>pow\<close> on the absolute value and
  raises \<^verbatim>\<open>OverflowError\<close> when the result is infinite. The C library's \<^verbatim>\<open>pow\<close> need
  not be correctly rounded, so it is a parameter: \<open>libm_pow v\<close> is what
  \<^verbatim>\<open>pow(v, 2.0)\<close> returns for a finite \<open>v\<close> that is positive and not 1.
\<close>

definition fpow2 :: "(rat \<Rightarrow> pyfloat) \<Rightarrow> pyfloat \<Rightarrow> py_exception + pyfloat" where
  "fpow2 libm_pow x =
     (if x = NaN then Inr NaN
      else if is_inf x then Inr PosInf
      else if fval x = 0 then Inr (Fin 0)
      else if \<bar>fval x\<bar> = 1 then Inr (Fin 1)
      else if is_inf (libm_pow \<bar>fval x\<bar>) then
        Inl (OverflowError (''(34, '' @ [CHR 0x27] @ ''Numerical result out of range'' @
               [CHR 0x27] @ '')''))
      else Inr (libm_pow \<bar>fval x\<bar>))"

text \<open>One C library: its \<^verbatim>\<open>pow(v, 2.0)\<close> is the correctly rounded square.\<close>

definition rounded_pow :: "rat \<Rightarrow> pyfloat" where
  "rounded_pow v = round_float (v * v)"

text \<open>
  \<^verbatim>\<open>math.sqrt\<close>, correctly rounded. \<open>isqrt n\<close> is the integer square root; the square
  root of \<open>q\<close> is taken with at least 64 bits and a sticky half bit when it is inexact,
  which no rounding boundary of a 53-bit significand can separate from the true value.
\<close>

fun sqrt_bits :: "nat \<Rightarrow> int \<Rightarrow> int \<Rightarrow> int" where
  "sqrt_bits 0 n acc = (if (acc + 1) * (acc + 1) \<le> n then acc + 1 else acc)"
| "sqrt_bits (Suc i) n acc =
     sqrt_bits i n
       (if (acc + 2 ^ Suc i) * (acc + 2 ^ Suc i) \<le> n then acc + 2 ^ Suc i else acc)"

definition isqrt :: "int \<Rightarrow> int" where
  "isqrt n = sqrt_bits (nat (bitlen n) div 2) n 0"

definition sqrt_round :: "rat \<Rightarrow> rat" where
  "sqrt_round q =
     (let k = (130 - flog2 q) div 2;
          n = \<lfloor>q * 4 powi k\<rfloor>;
          r = isqrt n;
          exact = (of_int (r * r) = q * 4 powi k)
      in rnd ((if exact then of_int r else of_int r + 1 / 2) / 2 powi k))"

definition fsqrt :: "pyfloat \<Rightarrow> py_exception + pyfloat" where
  "fsqrt x =
     (if x = NaN then Inr NaN
      else if x = PosInf then Inr PosInf
      else if is_zero x then Inr x
      else if sign_bit x then Inl (ValueError ''math domain error'')
      else Inr (Fin (sqrt_round (fval x))))"

text \<open>
  \<^verbatim>\<open>n / d\<close> for two Python integers with \<open>d\<close> positive and a quotient in the range of
  floats, as the quotients of lengths in \<^verbatim>\<open>analyze_text\<close> are: the correctly rounded
  quotient.
\<close>

definition int_truediv :: "int \<Rightarrow> int \<Rightarrow> pyfloat" where
  "int_truediv n d = round_float (of_int n / of_int d)"

text \<open>
  \<^verbatim>\<open>round(x, 2)\<close>: the exact value of \<open>x\<close> is rounded to two decimals, ties to even, and
  the decimal is converted back to the nearest float; the sign of \<open>x\<close> is kept.
\<close>

definition py_round2 :: "pyfloat \<Rightarrow> pyfloat" where
  "py_round2 x =
     (if \<not> is_finite x then x
      else if rhe (fval x * 100) = 0 then signed_zero (sign_bit x)
      else round_float (of_int (rhe (fval x * 100)) / 100))"

subsection \<open>repr\<close>

text \<open>
  \<^verbatim>\<open>repr(x)\<close>, which \<^verbatim>\<open>str(x)\<close> and an f-string field without a format give as well: the
  shortest decimal string that rounds to \<open>x\<close>, the closest to \<open>x\<close> among those of that
  length; in positional notation when the decimal point falls within
  \<^verbatim>\<open>-4 < decpt <= 16\<close>, else with an exponent.
\<close>

definition flog10 :: "rat \<Rightarrow> int" where
  "flog10 q =
     (let k = (flog2 q * 1233) div 4096
      in if 10 powi (k + 1) \<le> q then k + 1 else if 10 powi k \<le> q then k else k - 1)"

text \<open>
  The candidates with \<open>n\<close> significant digits around \<open>q\<close>: \<open>Some (d, e)\<close> stands for the
  decimal \<open>d * 10 powi e\<close>.
\<close>

definition digits_of_length :: "nat \<Rightarrow> rat \<Rightarrow> (int \<times> int) option" where
  "digits_of_length n q =
     (let e = flog10 q - int n + 1;
          lo = \<lfloor>q / 10 powi e\<rfloor>;
          hi = lo + 1;
          lo_ok = (rnd (of_int lo * 10 powi e) = q);
          hi_ok = (rnd (of_int hi * 10 powi e) = q);
          lo_nearer = (q - of_int lo * 10 powi e \<le> of_int hi * 10 powi e - q)
      in if lo_ok \<and> (lo_nearer \<or> \<not> hi_ok) then Some (lo, e)
         else if hi_ok then Some (hi, e)
         else None)"

fun shortest_digits :: "nat \<Rightarrow> nat \<Rightarrow> rat \<Rightarrow> int \<times> int" where
  "shortest_digits 0 n q = (rhe (q / 10 powi (flog10 q - int n + 1)), flog10 q - int n + 1)"
| "shortest_digits (Suc k) n q =
     (case digits_of_length n q of
        Some de \<Rightarrow> de
      | None \<Rightarrow> shortest_digits k (Suc n) q)"

definition digit_chr :: "int \<Rightarrow> char" where
  "digit_chr d = char_of (48 + d)"

function decimal :: "int \<Rightarrow> string" where
  "decimal n = (if n < 10 then [digit_chr n] else decimal (n div 10) @ [digit_chr (n mod 10)])"
  by pat_completeness auto
termination
  by (relation "measure nat") auto

definition strip_zeros :: "string \<Rightarrow> string" where
  "strip_zeros s = rev (dropWhile (\<lambda>c. c = CHR ''0'') (rev s))"

definition repr_positive :: "rat \<Rightarrow> string" where
  "repr_positive q =
     (case shortest_digits 16 1 q of
        (d, e) \<Rightarrow>
          (let all_digits = decimal d;
               decpt = int (length all_digits) + e;
               digits = strip_zeros all_digits;
               len = int (length digits)
           in if decpt \<le> - 4 \<or> 16 < decpt then
                (take 1 digits @ (if 1 < len then ''.'' @ drop 1 digits else []) @ ''e'' @
                 (if decpt - 1 < 0 then ''-'' else ''+'') @
                 (if \<bar>decpt - 1\<bar> < 10 then ''0'' else []) @ decimal \<bar>decpt - 1\<bar>)
              else if decpt \<le> 0 then ''0.'' @ replicate (nat (- decpt)) CHR ''0'' @ digits
              else if len \<le> decpt then digits @ replicate (nat (decpt - len)) CHR ''0'' @ ''.0''
              else take (nat decpt) digits @ ''.'' @ drop (nat decpt) digits))"

fun float_repr :: "pyfloat \<Rightarrow> string" where
  "float_repr NaN = ''nan''"
| "float_repr PosInf = ''inf''"
| "float_repr NegInf = ''-inf''"
| "float_repr NegZero = ''-0.0''"
| "float_repr (Fin q) =
     (if q = 0 then ''0.0''
      else if q < 0 then ''-'' @ repr_positive (- q)
      else repr_positive q)"

section \<open>Numeric operations\<close>

text \<open>Sequencing of steps that may raise: the first exception ends the computation.\<close>

definition and_then :: "'e + 'a \<Rightarrow> ('a \<Rightarrow> 'e + 'b) \<Rightarrow> 'e + 'b" where
  "and_then m f = (case m of Inl e \<Rightarrow> Inl e | Inr v \<Rightarrow> f v)"

subsection \<open>The library calls of calculate\_statistics\<close>

text \<open>
  \<^verbatim>\<open>statistics.mean\<close>: the exact sum of the values divided by their number, converted
  to a float once at the end. With an infinity or a NaN among the values, the library
  adds those values up as floats and ignores the finite ones.
\<close>

definition py_mean :: "pyfloat list \<Rightarrow> py_exception + pyfloat" where
  "py_mean values =
     (if values = [] then Inl (StatisticsError ''mean requires at least one data point'')
      else if list_all is_finite values then
        Inr (round_float (sum_list (map fval values) / of_nat (length values)))
      else
        (case filter (\<lambda>x. \<not> is_finite x) values of
           [] \<Rightarrow> Inr NaN
         | x # xs \<Rightarrow> Inr (foldl fadd x xs)))"

text \<open>
  \<^verbatim>\<open>min\<close> and \<^verbatim>\<open>max\<close>: the first item is kept until a later one compares strictly
  smaller (greater).
\<close>

fun min_from :: "pyfloat \<Rightarrow> pyfloat list \<Rightarrow> pyfloat" where
  "min_from m [] = m"
| "min_from m (x # xs) = min_from (if flt x m then x else m) xs"

fun max_from :: "pyfloat \<Rightarrow> pyfloat list \<Rightarrow> pyfloat" where
  "max_from m [] = m"
| "max_from m (x # xs) = max_from (if fgt x m then x else m) xs"

definition py_min :: "pyfloat list \<Rightarrow> py_exception + pyfloat" where
  "py_min values =
     (case values of
        [] \<Rightarrow> Inl (ValueError ''min() arg is an empty sequence'')
      | x # xs \<Rightarrow> Inr (min_from x xs))"

definition py_max :: "pyfloat list \<Rightarrow> py_exception + pyfloat" where
  "py_max values =
     (case values of
        [] \<Rightarrow> Inl (ValueError ''max() arg is an empty sequence'')
      | x # xs \<Rightarrow> Inr (max_from x xs))"

text \<open>
  \<^verbatim>\<open>set(values)\<close>, as the list of its distinct keys in order of insertion. Two floats
  are the same key when they compare equal; the items of the list are taken to be
  separate objects, so that a NaN, which equals nothing, is a key of its own.
\<close>

definition set_add :: "pyfloat list \<Rightarrow> pyfloat \<Rightarrow> pyfloat list" where
  "set_add s x = (if list_ex (\<lambda>k. feq k x) s then s else s @ [x])"

definition py_set :: "pyfloat list \<Rightarrow> pyfloat list" where
  "py_set values = foldl set_add [] values"

text \<open>
  \<^verbatim>\<open>statistics.mode\<close>, that is \<^verbatim>\<open>Counter(iter(data)).most_common(1)[0][0]\<close>: the
  counts are kept by key in order of insertion, and the first key with the highest
  count wins.
\<close>

fun counter_add :: "pyfloat \<Rightarrow> (pyfloat \<times> nat) list \<Rightarrow> (pyfloat \<times> nat) list" where
  "counter_add x [] = [(x, 1)]"
| "counter_add x ((k, n) # kvs) =
     (if feq k x then (k, n + 1) # kvs else (k, n) # counter_add x kvs)"

definition counter :: "pyfloat list \<Rightarrow> (pyfloat \<times> nat) list" where
  "counter values = foldl (\<lambda>c x. counter_add x c) [] values"

fun most_common_from :: "pyfloat \<times> nat \<Rightarrow> (pyfloat \<times> nat) list \<Rightarrow> pyfloat \<times> nat" where
  "most_common_from best [] = best"
| "most_common_from best (kv # kvs) =
     most_common_from (if snd best < snd kv then kv else best) kvs"

definition py_mode :: "pyfloat list \<Rightarrow> py_exception + pyfloat" where
  "py_mode values =
     (case counter values of
        [] \<Rightarrow> Inl (StatisticsError ''no mode for empty data'')
      | kv # kvs \<Rightarrow> Inr (fst (most_common_from kv kvs)))"

text \<open>
  The other four library calls, \<^verbatim>\<open>statistics.median\<close>, \<^verbatim>\<open>statistics.stdev\<close>,
  \<^verbatim>\<open>statistics.variance\<close> and \<^verbatim>\<open>sum\<close>, are parameters of the model: their results
  differ between versions of Python in the last bits and in when they raise, and the
  properties below hold whatever they return.
\<close>

record stats_lib =
  statistics_median :: "pyfloat list \<Rightarrow> py_exception + pyfloat"
  statistics_stdev :: "pyfloat list \<Rightarrow> py_exception + pyfloat"
  statistics_variance :: "pyfloat list \<Rightarrow> py_exception + pyfloat"
  builtin_sum :: "pyfloat list \<Rightarrow> py_exception + pyfloat"

subsection \<open>calculate\_statistics\<close>

record statistics_result =
  count :: nat
  mean :: pyfloat
  median :: pyfloat
  mode :: "pyfloat option"
  std_dev :: pyfloat
  variance :: pyfloat
  min_value :: pyfloat
  max_value :: pyfloat
  range_value :: pyfloat
  sum_value :: pyfloat

text \<open>The entries of the dictionary are evaluated in the order in which they are written.\<close>

definition statistics_body :: "stats_lib \<Rightarrow> pyfloat list \<Rightarrow> py_exception + statistics_result" where
  "statistics_body lib values =
     and_then (py_mean values) (\<lambda>v_mean.
     and_then (statistics_median lib values) (\<lambda>v_median.
     and_then (if length (py_set values) < length values
               then and_then (py_mode values) (\<lambda>m. Inr (Some m)) else Inr None) (\<lambda>v_mode.
     and_then (if 1 < length values then statistics_stdev lib values else Inr (Fin 0)) (\<lambda>v_std_dev.
     and_then (if 1 < length values then statistics_variance lib values else Inr (Fin 0)) (\<lambda>v_variance.
     and_then (py_min values) (\<lambda>v_min.
     and_then (py_max values) (\<lambda>v_max.
     and_then (py_max values) (\<lambda>hi.
     and_then (py_min values) (\<lambda>lo.
     and_then (builtin_sum lib values) (\<lambda>v_sum.
       Inr \<lparr>count = length values, mean = v_mean, median = v_median, mode = v_mode,
            std_dev = v_std_dev, variance = v_variance, min_value = v_min, max_value = v_max,
            range_value = fsub hi lo, sum_value = v_sum\<rparr>))))))))))"

definition calculate_statistics :: "stats_lib \<Rightarrow> pyfloat list \<Rightarrow> http_exception + statistics_result" where
  "calculate_statistics lib values =
     http_400 ''Error calculating statistics: '' (statistics_body lib values)"

text \<open>``No value occurs more than once'': no item equals a later one.\<close>

fun no_repeats :: "pyfloat list \<Rightarrow> bool" where
  "no_repeats [] = True"
| "no_repeats (x # xs) = (\<not> list_ex (feq x) xs \<and> no_repeats xs)"

subsection \<open>The four library calls in CPython 3.11\<close>

text \<open>
  One instance of the parameters, used to run the model on examples: what CPython 3.11
  computes on a list of finite floats. \<^verbatim>\<open>sum\<close> adds from the left starting at the
  integer 0; \<^verbatim>\<open>median\<close> sorts and takes the middle item or the mean of the two middle
  items; \<^verbatim>\<open>variance\<close> divides the exact sum of squared deviations from the exact mean
  by \<open>n - 1\<close> and converts the quotient to a float, which raises when it is out of range;
  \<^verbatim>\<open>stdev\<close> is the correctly rounded square root of the same exact quotient.
\<close>

fun insert_sorted :: "pyfloat \<Rightarrow> pyfloat list \<Rightarrow> pyfloat list" where
  "insert_sorted x [] = [x]"
| "insert_sorted x (y # ys) = (if flt x y then x # y # ys else y # insert_sorted x ys)"

definition py_sorted :: "pyfloat list \<Rightarrow> pyfloat list" where
  "py_sorted values = foldl (\<lambda>s x. insert_sorted x s) [] values"

definition median_3_11 :: "pyfloat list \<Rightarrow> py_exception + pyfloat" where
  "median_3_11 values =
     (let data = py_sorted values; n = length data
      in if n = 0 then Inl (StatisticsError ''no median for empty data'')
         else if n mod 2 = 1 then Inr (data ! (n div 2))
         else ftruediv (fadd (data ! (n div 2 - 1)) (data ! (n div 2))) (Fin 2))"

definition exact_mss :: "pyfloat list \<Rightarrow> rat" where
  "exact_mss values =
     (let n = of_nat (length values);
          c = sum_list (map fval values) / n
      in sum_list (map (\<lambda>x. (fval x - c) * (fval x - c)) values) / (n - 1))"

definition variance_3_11 :: "pyfloat list \<Rightarrow> py_exception + pyfloat" where
  "variance_3_11 values =
     (if length values < 2 then
        Inl (StatisticsError ''variance requires at least two data points'')
      else if is_inf (round_float (exact_mss values)) then
        Inl (OverflowError ''integer division result too large for a float'')
      else Inr (round_float (exact_mss values)))"

definition stdev_3_11 :: "pyfloat list \<Rightarrow> py_exception + pyfloat" where
  "stdev_3_11 values =
     (if length values < 2 then
        Inl (StatisticsError ''stdev requires at least two data points'')
      else if exact_mss values = 0 then Inr (Fin 0)
      else Inr (Fin (sqrt_round (exact_mss values))))"

definition cpython_3_11 :: stats_lib where
  "cpython_3_11 =
     \<lparr>statistics_median = median_3_11, statistics_stdev = stdev_3_11,
      statistics_variance = variance_3_11,
      builtin_sum = (\<lambda>values. Inr (foldl fadd (Fin 0) values))\<rparr>"

subsection \<open>solve\_quadratic\<close>

text \<open>A root is a float or, for complex roots, a display string.\<close>

datatype root = RealRoot pyfloat | ComplexRoot string

record quadratic_result =
  discriminant :: pyfloat
  roots :: "root list"
  root_type :: string

text \<open>
  The integer literals \<^verbatim>\<open>4\<close> and \<^verbatim>\<open>2\<close> become floats when they meet a float, and
  \<^verbatim>\<open>discriminant > 0\<close> compares with the float zero. \<open>libm_pow\<close> is the C library's
  \<^verbatim>\<open>pow\<close>, which \<^verbatim>\<open>b**2\<close> calls.
\<close>

definition quadratic_body ::
  "(rat \<Rightarrow> pyfloat) \<Rightarrow> pyfloat \<Rightarrow> pyfloat \<Rightarrow> pyfloat \<Rightarrow> py_exception + quadratic_result" where
  "quadratic_body libm_pow a b c =
     and_then (fpow2 libm_pow b) (\<lambda>b2.
       (let d = fsub b2 (fmul (fmul (Fin 4) a) c)
        in if fgt d (Fin 0) then
             and_then (fsqrt d) (\<lambda>s1.
             and_then (ftruediv (fadd (fneg b) s1) (fmul (Fin 2) a)) (\<lambda>x1.
             and_then (fsqrt d) (\<lambda>s2.
             and_then (ftruediv (fsub (fneg b) s2) (fmul (Fin 2) a)) (\<lambda>x2.
               Inr \<lparr>discriminant = d, roots = [RealRoot x1, RealRoot x2],
                    root_type = ''real_distinct''\<rparr>))))
           else if feq d (Fin 0) then
             and_then (ftruediv (fneg b) (fmul (Fin 2) a)) (\<lambda>x.
               Inr \<lparr>discriminant = d, roots = [RealRoot x], root_type = ''real_repeated''\<rparr>)
           else
             and_then (ftruediv (fneg b) (fmul (Fin 2) a)) (\<lambda>real_part.
             and_then (fsqrt (fneg d)) (\<lambda>s.
             and_then (ftruediv s (fmul (Fin 2) a)) (\<lambda>imaginary_part.
               Inr \<lparr>discriminant = d,
                    roots =
                      [ComplexRoot (float_repr real_part @ '' + '' @ float_repr imaginary_part @ ''i''),
                       ComplexRoot (float_repr real_part @ '' - '' @ float_repr imaginary_part @ ''i'')],
                    root_type = ''complex''\<rparr>)))))"

definition solve_quadratic ::
  "(rat \<Rightarrow> pyfloat) \<Rightarrow> pyfloat \<Rightarrow> pyfloat \<Rightarrow> pyfloat \<Rightarrow> http_exception + quadratic_result" where
  "solve_quadratic libm_pow a b c =
     http_400 ''Error solving quadratic: '' (quadratic_body libm_pow a b c)"

section \<open>analyze\_text\<close>

text \<open>
  \<^verbatim>\<open>s.split(sep)\<close> for a non-empty separator: the pieces between the occurrences of
  \<open>sep\<close>, found from the left without overlap. \<open>skip\<close> counts the characters of the
  occurrence being passed over.
\<close>

fun split_at :: "string \<Rightarrow> nat \<Rightarrow> string \<Rightarrow> string \<Rightarrow> string list" where
  "split_at sep skip cur [] = [cur]"
| "split_at sep skip cur (c # cs) =
     (if 0 < skip then split_at sep (skip - 1) cur cs
      else if take (length sep) (c # cs) = sep then cur # split_at sep (length sep - 1) [] cs
      else split_at sep 0 (cur @ [c]) cs)"

definition py_split_sep :: "string \<Rightarrow> string \<Rightarrow> string list" where
  "py_split_sep sep s = split_at sep 0 [] s"

text \<open>\<^verbatim>\<open>s.strip()\<close> and \<^verbatim>\<open>s.strip(chars)\<close>.\<close>

definition strip_where :: "(char \<Rightarrow> bool) \<Rightarrow> string \<Rightarrow> string" where
  "strip_where p s = rev (dropWhile p (rev (dropWhile p s)))"

definition py_strip :: "string \<Rightarrow> string" where
  "py_strip s = strip_where isspace s"

definition py_strip_chars :: "string \<Rightarrow> string \<Rightarrow> string" where
  "py_strip_chars chars s = strip_where (\<lambda>c. in_str c chars) s"

text \<open>
  \<^verbatim>\<open>max(words, key=len)\<close> and \<^verbatim>\<open>min(words, key=len)\<close> on a non-empty list: the first
  word of the greatest (least) length.
\<close>

fun longest_from :: "string \<Rightarrow> string list \<Rightarrow> string" where
  "longest_from best [] = best"
| "longest_from best (w # ws) = longest_from (if length best < length w then w else best) ws"

fun shortest_from :: "string \<Rightarrow> string list \<Rightarrow> string" where
  "shortest_from best [] = best"
| "shortest_from best (w # ws) = shortest_from (if length w < length best then w else best) ws"

text \<open>
  The averages are the integer 0 when there is nothing to average and a float
  otherwise; \<^verbatim>\<open>round(x, 2)\<close> returns an integer unchanged.
\<close>

datatype pynum = PyInt int | PyFloat pyfloat

fun round_2 :: "pynum \<Rightarrow> pynum" where
  "round_2 (PyInt n) = PyInt n"
| "round_2 (PyFloat x) = PyFloat (py_round2 x)"

record char_counts =
  total_chars :: nat
  chars_no_spaces :: nat
  uppercase :: nat
  lowercase :: nat
  digits :: nat
  special_chars :: nat

record text_analysis =
  word_count :: nat
  sentence_count :: nat
  paragraph_count :: nat
  avg_word_length :: pynum
  avg_sentence_length :: pynum
  character_analysis :: char_counts
  longest_word :: string
  shortest_word :: string

definition analyze_body :: "string \<Rightarrow> py_exception + text_analysis" where
  "analyze_body text =
     (let words = py_split text;
          sentences = map py_strip (filter (\<lambda>s. py_strip s \<noteq> []) (py_split_sep ''.'' text));
          counts =
            \<lparr>total_chars = length text,
             chars_no_spaces = length (filter (\<lambda>c. c \<noteq> CHR '' '') text),
             uppercase = length (filter isupper text),
             lowercase = length (filter islower text),
             digits = length (filter isdigit text),
             special_chars = length (filter (\<lambda>c. \<not> isalnum c \<and> \<not> isspace c) text)\<rparr>;
          word_lengths =
            map (\<lambda>word. length (py_strip_chars (''.,!?;:'' @ [CHR 0x22] @ ''()[]{}'') word)) words;
          avg_word_length =
            (if word_lengths \<noteq> []
             then PyFloat (int_truediv (int (sum_list word_lengths)) (int (length word_lengths)))
             else PyInt 0)
      in Inr \<lparr>word_count = length words,
              sentence_count = length sentences,
              paragraph_count = length (py_split_sep [CHR 0x0A, CHR 0x0A] text),
              avg_word_length = round_2 avg_word_length,
              avg_sentence_length =
                (if sentences \<noteq> []
                 then round_2 (PyFloat (int_truediv (int (length words)) (int (length sentences))))
                 else PyInt 0),
              character_analysis = counts,
              longest_word = (case words of [] \<Rightarrow> [] | w # ws \<Rightarrow> longest_from w ws),
              shortest_word = (case words of [] \<Rightarrow> [] | w # ws \<Rightarrow> shortest_from w ws)\<rparr>)"

definition analyze_text :: "string \<Rightarrow> http_exception + text_analysis" where
  "analyze_text text = http_400 ''Error analyzing text: '' (analyze_body text)"

section \<open>Properties of transform\_text\<close>

lemma pig_latin_loop_map:
  "pig_latin_loop ws acc = acc @ map pig_latin_word ws"
  by (induction ws arbitrary: acc) simp_all

lemma find_first_vowel_none:
  "\<forall>c \<in> set w. \<not> is_vowel c \<Longrightarrow> find_first_vowel i (map lower_chr w) = None"
  by (induction w arbitrary: i) (simp_all add: is_vowel_def)

lemma find_first_vowel_some:
  "\<exists>c \<in> set w. is_vowel c \<Longrightarrow>
     find_first_vowel i (map lower_chr w) = Some (i + length (takeWhile (\<lambda>c. \<not> is_vowel c) w))"
  by (induction w arbitrary: i) (force simp: is_vowel_def)+

lemma pig_word_rotate: "w \<noteq> [] \<Longrightarrow> pig_word w = rotate_cluster w"
proof (cases "is_vowel (hd w)")
  case True
  assume "w \<noteq> []"
  with True show ?thesis by (simp add: pig_word_def rotate_cluster_def is_vowel_def)
next
  case False
  assume ne: "w \<noteq> []"
  let ?P = "\<lambda>c. \<not> is_vowel c"
  from False have hd: "\<not> in_str (lower_chr (hd w)) ''aeiou''" by (simp add: is_vowel_def)
  have rot: "rotate_cluster w = dropWhile ?P w @ takeWhile ?P w @ ''ay''"
    using False by (simp add: rotate_cluster_def)
  show ?thesis
  proof (cases "\<exists>c \<in> set w. is_vowel c")
    case True
    then have "find_first_vowel 0 (py_lower w) = Some (length (takeWhile ?P w))"
      using find_first_vowel_some [of w 0] by (simp add: py_lower_def)
    then have "pig_word w = drop (length (takeWhile ?P w)) w @ take (length (takeWhile ?P w)) w @ ''ay''"
      using hd by (simp add: pig_word_def Let_def)
    then show ?thesis
      unfolding rot by (simp add: takeWhile_eq_take [symmetric] dropWhile_eq_drop [symmetric])
  next
    case no: False
    then have "find_first_vowel 0 (py_lower w) = None"
      using find_first_vowel_none [of w 0] by (simp add: py_lower_def)
    then have pw: "pig_word w = w @ ''ay''"
      using hd by (simp add: pig_word_def Let_def)
    from no have tw: "takeWhile ?P w = w" and dw: "dropWhile ?P w = []" by auto
    show ?thesis unfolding rot tw dw pw by simp
  qed
qed

lemma pig_latin_word_spec: "pig_latin_word word = spec_pig_word word"
  using pig_word_rotate [of "butlast word"] pig_word_rotate [of word]
  by (simp add: pig_latin_word_def spec_pig_word_def detach_punctuation_def)

lemma pig_latin_word_eq: "pig_latin_word = spec_pig_word"
  by (rule ext) (rule pig_latin_word_spec)

text \<open>
  Claim C3, as stated, at the text \<^verbatim>\<open>Hello world !\<close>: the last token is only a
  punctuation character. The code appends it unchanged (its branch
  \<^verbatim>\<open># Empty word, keep as is\<close>), while the stated rule, applied to the empty word
  that is left once the punctuation is detached, yields \<^verbatim>\<open>ay!\<close>.
\<close>

theorem pig_latin_punctuation_token_counterexample:
  "transform_text ''Hello world !'' ''pig_latin'' = Inr ''elloHay orldway !'' \<and>
   claimed_pig_latin ''Hello world !'' = ''elloHay orldway ay!'' \<and>
   transform_text ''Hello world !'' ''pig_latin'' \<noteq> Inr (claimed_pig_latin ''Hello world !'')"
  by code_simp

text \<open>
  Claim C3, amended: for every ASCII text, \<^verbatim>\<open>transform(text, "pig_latin")\<close> succeeds
  and maps each whitespace-delimited word by the stated rule (one trailing character of
  \<^verbatim>\<open>.,!?;:\<close> detached and reattached; \<^verbatim>\<open>way\<close> appended to a word starting with a
  vowel; otherwise the consonants before the first vowel, or the whole word when it has
  no vowel, moved to the end and \<^verbatim>\<open>ay\<close> appended), except that a token that is empty
  once its punctuation is detached passes through unchanged; the words are joined with
  single spaces. In particular \<^verbatim>\<open>transform("Hello world.", "pig_latin")\<close> is
  \<^verbatim>\<open>elloHay orldway.\<close>
\<close>

theorem pig_latin_rule:
  "(is_ascii text \<longrightarrow> transform_text text ''pig_latin'' = Inr (spec_pig_latin text)) \<and>
   transform_text ''Hello world.'' ''pig_latin'' = Inr ''elloHay orldway.''"
proof
  show "is_ascii text \<longrightarrow> transform_text text ''pig_latin'' = Inr (spec_pig_latin text)"
    by (simp add: transform_text_def transform_body_def http_400_def spec_pig_latin_def
        pig_latin_loop_map pig_latin_word_eq)
  show "transform_text ''Hello world.'' ''pig_latin'' = Inr ''elloHay orldway.''"
    by code_simp
qed

theorem pig_latin_rule_witness:
  "is_ascii ''Try  rhythm, apple !'' \<and>
   transform_text ''Try  rhythm, apple !'' ''pig_latin'' =
     Inr (spec_pig_latin ''Try  rhythm, apple !'') \<and>
   spec_pig_latin ''Try  rhythm, apple !'' = ''Tryay rhythmay, appleway !''"
proof -
  have a: "is_ascii ''Try  rhythm, apple !''" by code_simp
  from pig_latin_rule [of "''Try  rhythm, apple !''"] a
  have r: "transform_text ''Try  rhythm, apple !'' ''pig_latin'' =
      Inr (spec_pig_latin ''Try  rhythm, apple !'')"
    by blast
  have v: "spec_pig_latin ''Try  rhythm, apple !'' = ''Tryay rhythmay, appleway !''"
    by code_simp
  from a r v show ?thesis by blast
qed

lemma title_from_length: "length (title_from b s) = length s"
  by (induction s arbitrary: b) simp_all

lemma title_from_nth:
  "i < length s \<Longrightarrow>
     title_from b s ! i =
       (if (if i = 0 then b else isalpha (s ! (i - 1))) then lower_chr (s ! i)
        else upper_chr (s ! i))"
proof (induction s arbitrary: b i)
  case Nil
  then show ?case by simp
next
  case (Cons c cs)
  show ?case
  proof (cases i)
    case 0
    then show ?thesis by simp
  next
    case (Suc j)
    with Cons.prems have "j < length cs" by simp
    from Cons.IH [OF this, of "isalpha c"] Suc show ?thesis
      by (cases j) simp_all
  qed
qed

lemma py_title_positions: "py_title s = map (title_at s) [0..<length s]"
proof (rule nth_equalityI)
  show "length (py_title s) = length (map (title_at s) [0..<length s])"
    by (simp add: py_title_def title_from_length)
next
  fix i
  assume "i < length (py_title s)"
  then have i: "i < length s" by (simp add: py_title_def title_from_length)
  then show "py_title s ! i = map (title_at s) [0..<length s] ! i"
    by (simp add: py_title_def title_from_nth title_at_def)
qed

text \<open>
  Claim C4, as stated, at the text \<^verbatim>\<open>well-known fact\<close>: Python's \<^verbatim>\<open>str.title()\<close>
  starts a new word after the hyphen, so the code returns \<^verbatim>\<open>Well-Known Fact\<close>, while
  capitalising the first letter of each whitespace-delimited word gives
  \<^verbatim>\<open>Well-known Fact\<close>.
\<close>

theorem title_word_boundary_counterexample:
  "transform_text ''well-known fact'' ''title'' = Inr ''Well-Known Fact'' \<and>
   claimed_title ''well-known fact'' = ''Well-known Fact'' \<and>
   transform_text ''well-known fact'' ''title'' \<noteq> Inr (claimed_title ''well-known fact'')"
  by code_simp

text \<open>
  Claim C4, amended: for every ASCII text, \<^verbatim>\<open>transform(text, "title")\<close> succeeds and
  returns the text in which every letter that does not follow a letter is uppercased and
  every letter that follows a letter is lowercased; every other character is unchanged.
  Words are the maximal runs of letters: any character that is not a letter, not only
  whitespace, is a word boundary.
\<close>

theorem title_case_positions:
  "is_ascii text \<longrightarrow>
     transform_text text ''title'' = Inr (map (title_at text) [0..<length text])"
  by (simp add: transform_text_def transform_body_def http_400_def py_title_positions)

theorem title_case_positions_witness:
  "is_ascii ''it's a well-known FACT, 2nd ed.'' \<and>
   transform_text ''it's a well-known FACT, 2nd ed.'' ''title'' =
     Inr (map (title_at ''it's a well-known FACT, 2nd ed.'')
            [0..<length ''it's a well-known FACT, 2nd ed.'']) \<and>
   map (title_at ''it's a well-known FACT, 2nd ed.'')
     [0..<length ''it's a well-known FACT, 2nd ed.''] = ''It'S A Well-Known Fact, 2Nd Ed.''"
proof -
  have a: "is_ascii ''it's a well-known FACT, 2nd ed.''" by code_simp
  from title_case_positions [of "''it's a well-known FACT, 2nd ed.''"] a
  have r: "transform_text ''it's a well-known FACT, 2nd ed.'' ''title'' =
      Inr (map (title_at ''it's a well-known FACT, 2nd ed.'')
             [0..<length ''it's a well-known FACT, 2nd ed.''])"
    by blast
  have v: "map (title_at ''it's a well-known FACT, 2nd ed.'')
      [0..<length ''it's a well-known FACT, 2nd ed.''] = ''It'S A Well-Known Fact, 2Nd Ed.''"
    by code_simp
  from a r v show ?thesis by blast
qed

section \<open>Properties of extract\_information\<close>

lemma advance_elem:
  "s' \<in> set (advance p s) \<Longrightarrow>
     \<exists>c. rest s = c # rest s' \<and> p c \<and> groups s' = groups s \<and> prev s' = Some c"
  by (auto simp: advance_def split: list.splits if_splits)

lemma advance_groups: "s' \<in> set (advance p s) \<Longrightarrow> groups s' = groups s"
  by (auto dest: advance_elem)

lemma repeat_groups:
  assumes step: "\<And>s s'. s' \<in> set (step s) \<Longrightarrow> groups s' = groups s"
  shows "s' \<in> set (repeat step k m n s) \<Longrightarrow> groups s' = groups s"
proof (induction k arbitrary: m n s)
  case 0
  then show ?case by (simp split: if_splits)
next
  case (Suc k)
  then show ?case
    by (auto split: if_splits dest!: step)
qed

lemma capture_free_groups:
  "capture_free r \<Longrightarrow> s' \<in> set (matches r s) \<Longrightarrow> groups s' = groups s"
proof (induction r arbitrary: s s')
  case Eps
  then show ?case by simp
next
  case (Lit a)
  then show ?case by (simp add: advance_groups)
next
  case (CharSet items)
  then show ?case by (simp add: advance_groups)
next
  case WordBoundary
  then show ?case by (simp split: if_splits)
next
  case (Cat r1 r2)
  from Cat.prems obtain s1 where "s1 \<in> set (matches r1 s)" "s' \<in> set (matches r2 s1)"
    by auto
  with Cat.IH Cat.prems(1) show ?case by simp
next
  case (Alt r1 r2)
  then show ?case by auto
next
  case (Repeat r m n)
  from Repeat.prems have cf: "capture_free r"
    and el: "s' \<in> set (repeat (matches r) (length (rest s)) m n s)" by simp_all
  show ?case
    by (rule repeat_groups [OF _ el]) (rule Repeat.IH [OF cf])
next
  case (Group g r)
  then show ?case by simp
qed


lemma digit_step:
  "s1 \<in> set (matches (CharSet [Range CHR ''0'' CHR ''9'']) s) \<Longrightarrow>
     \<exists>c. rest s = c # rest s1 \<and> isdigit c \<and> groups s1 = groups s"
  by (auto simp: isdigit_def dest!: advance_elem)

lemma repeat_exact:
  assumes step: "\<And>s s1. s1 \<in> set (step s) \<Longrightarrow>
      \<exists>c. rest s = c # rest s1 \<and> isdigit c \<and> groups s1 = groups s"
  shows "s' \<in> set (repeat step k n (Some n) s) \<Longrightarrow>
     \<exists>w. rest s = w @ rest s' \<and> length w = n \<and> list_all isdigit w \<and> groups s' = groups s"
proof (induction k arbitrary: n s)
  case 0
  then show ?case by (simp split: if_splits)
next
  case (Suc k)
  show ?case
  proof (cases n)
    case 0
    with Suc.prems show ?thesis by simp
  next
    case n: (Suc j)
    from Suc.prems have
      "s' \<in> set (concat (map (repeat step k j (Some j))
          (filter (\<lambda>s'. length (rest s') < length (rest s)) (step s))))"
      unfolding n by simp
    then obtain s1 where s1: "s1 \<in> set (step s)"
      and s': "s' \<in> set (repeat step k j (Some j) s1)"
      by auto
    from step [OF s1] obtain c where
      c: "rest s = c # rest s1" "isdigit c" "groups s1 = groups s"
      by blast
    from Suc.IH [OF s'] obtain w where
      w: "rest s1 = w @ rest s'" "length w = j" "list_all isdigit w" "groups s' = groups s1"
      by blast
    show ?thesis
    proof (intro exI conjI)
      show "rest s = (c # w) @ rest s'" using c w by simp
      show "length (c # w) = n" using w n by simp
      show "list_all isdigit (c # w)" using c w by simp
      show "groups s' = groups s" using c w by simp
    qed
  qed
qed

lemma group_digits:
  assumes "s' \<in> set (matches (Group g (Repeat (CharSet [Range CHR ''0'' CHR ''9'']) n (Some n))) s)"
  shows "\<exists>w. groups s' = (g, w) # groups s \<and> rest s = w @ rest s' \<and> length w = n \<and>
           list_all isdigit w"
proof -
  define step where "step = matches (CharSet [Range CHR ''0'' CHR ''9''])"
  from assms obtain s1 where
    s1: "s1 \<in> set (repeat step (length (rest s)) n (Some n) s)"
    and s': "s' = s1\<lparr>groups := (g, consumed s s1) # groups s1\<rparr>"
    unfolding step_def by auto
  have "\<And>s s1. s1 \<in> set (step s) \<Longrightarrow>
      \<exists>c. rest s = c # rest s1 \<and> isdigit c \<and> groups s1 = groups s"
    unfolding step_def by (rule digit_step)
  from repeat_exact [OF this s1] obtain w where
    w: "rest s = w @ rest s1" "length w = n" "list_all isdigit w" "groups s1 = groups s"
    by blast
  then have "consumed s s1 = w" by (simp add: consumed_def)
  with w s' show ?thesis by simp
qed


lemma cat_elem:
  "s' \<in> set (matches (Cat r1 r2) s) \<Longrightarrow>
     \<exists>s1. s1 \<in> set (matches r1 s) \<and> s' \<in> set (matches r2 s1)"
  by auto

lemma capture_free_opt_separator: "capture_free (opt separator)"
  by (simp add: opt_def separator_def)

lemma capture_free_prefix:
  "capture_free (opt (seq [opt (Lit CHR ''+''), Lit CHR ''1'', opt separator]))"
  by (simp add: opt_def separator_def)

lemma capture_free_opt_Lit: "capture_free (opt (Lit c))"
  by (simp add: opt_def)


lemma repeat_suffix:
  assumes step: "\<And>s s1. s1 \<in> set (step s) \<Longrightarrow> \<exists>w. rest s = w @ rest s1"
  shows "s' \<in> set (repeat step k m n s) \<Longrightarrow> \<exists>w. rest s = w @ rest s'"
proof (induction k arbitrary: m n s)
  case 0
  then show ?case by (simp split: if_splits)
next
  case (Suc k)
  from Suc.prems consider "s' = s"
    | s1 where "s1 \<in> set (step s)"
        "s' \<in> set (repeat step k (m - 1) (map_option (\<lambda>j. j - 1) n) s1)"
    by (auto split: if_splits)
  then show ?case
  proof cases
    case 1
    then show ?thesis by simp
  next
    case 2
    from step [OF 2(1)] obtain w1 where "rest s = w1 @ rest s1" by blast
    moreover from Suc.IH [OF 2(2)] obtain w2 where "rest s1 = w2 @ rest s'" by blast
    ultimately have "rest s = (w1 @ w2) @ rest s'" by simp
    then show ?thesis by blast
  qed
qed

lemma matches_suffix:
  "s' \<in> set (matches r s) \<Longrightarrow> \<exists>w. rest s = w @ rest s'"
proof (induction r arbitrary: s s')
  case Eps
  then show ?case by simp
next
  case (Lit a)
  then obtain c where "rest s = c # rest s'" by (auto dest: advance_elem)
  then have "rest s = [c] @ rest s'" by simp
  then show ?case by blast
next
  case (CharSet items)
  then obtain c where "rest s = c # rest s'" by (auto dest: advance_elem)
  then have "rest s = [c] @ rest s'" by simp
  then show ?case by blast
next
  case WordBoundary
  then show ?case by (simp split: if_splits)
next
  case (Cat r1 r2)
  from Cat.prems obtain s1 where s1: "s1 \<in> set (matches r1 s)" and s': "s' \<in> set (matches r2 s1)"
    by auto
  from Cat.IH(1) [OF s1] obtain w1 where "rest s = w1 @ rest s1" by blast
  moreover from Cat.IH(2) [OF s'] obtain w2 where "rest s1 = w2 @ rest s'" by blast
  ultimately have "rest s = (w1 @ w2) @ rest s'" by simp
  then show ?case by blast
next
  case (Alt r1 r2)
  then show ?case by auto
next
  case (Repeat r m n)
  from Repeat.prems have el: "s' \<in> set (repeat (matches r) (length (rest s)) m n s)" by simp
  show ?case
    by (rule repeat_suffix [OF _ el]) (rule Repeat.IH)
next
  case (Group g r)
  from Group.prems obtain s1 where s1: "s1 \<in> set (matches r s)" and "rest s' = rest s1"
    by auto
  with Group.IH [OF s1] show ?case by simp
qed

lemma phone_groups:
  assumes "s' \<in> set (matches phone_numbers_pattern s)"
  shows "\<exists>pre a x b y c post.
           rest s = pre @ a @ x @ b @ y @ c @ post @ rest s' \<and>
           groups s' = [(3, c), (2, b), (1, a)] @ groups s \<and>
           length a = 3 \<and> length b = 3 \<and> length c = 4 \<and>
           list_all isdigit a \<and> list_all isdigit b \<and> list_all isdigit c"
proof -
  let ?d = "CharSet [Range CHR ''0'' CHR ''9'']"
  let ?r9 = "Cat (Group 3 (Repeat ?d 4 (Some 4))) WordBoundary"
  let ?r8 = "Cat (opt separator) ?r9"
  let ?r7 = "Cat (Group 2 (Repeat ?d 3 (Some 3))) ?r8"
  let ?r6 = "Cat (opt separator) ?r7"
  let ?r5 = "Cat (opt (Lit CHR '')'')) ?r6"
  let ?r4 = "Cat (Group 1 (Repeat ?d 3 (Some 3))) ?r5"
  let ?r3 = "Cat (opt (Lit CHR ''('')) ?r4"
  let ?r2 = "Cat (opt (seq [opt (Lit CHR ''+''), Lit CHR ''1'', opt separator])) ?r3"
  have pat: "phone_numbers_pattern = Cat WordBoundary ?r2"
    by (simp add: phone_numbers_pattern_def)
  from assms obtain s1 where s1: "s1 \<in> set (matches WordBoundary s)"
    and t1: "s' \<in> set (matches ?r2 s1)"
    unfolding pat by (blast dest: cat_elem)
  from cat_elem [OF t1] obtain s2 where
    s2: "s2 \<in> set (matches (opt (seq [opt (Lit CHR ''+''), Lit CHR ''1'', opt separator])) s1)"
    and t2: "s' \<in> set (matches ?r3 s2)" by blast
  from cat_elem [OF t2] obtain s3 where
    s3: "s3 \<in> set (matches (opt (Lit CHR ''('')) s2)"
    and t3: "s' \<in> set (matches ?r4 s3)" by blast
  from cat_elem [OF t3] obtain s4 where
    s4: "s4 \<in> set (matches (Group 1 (Repeat ?d 3 (Some 3))) s3)"
    and t4: "s' \<in> set (matches ?r5 s4)" by blast
  from cat_elem [OF t4] obtain s5 where
    s5: "s5 \<in> set (matches (opt (Lit CHR '')'')) s4)"
    and t5: "s' \<in> set (matches ?r6 s5)" by blast
  from cat_elem [OF t5] obtain s6 where
    s6: "s6 \<in> set (matches (opt separator) s5)"
    and t6: "s' \<in> set (matches ?r7 s6)" by blast
  from cat_elem [OF t6] obtain s7 where
    s7: "s7 \<in> set (matches (Group 2 (Repeat ?d 3 (Some 3))) s6)"
    and t7: "s' \<in> set (matches ?r8 s7)" by blast
  from cat_elem [OF t7] obtain s8 where
    s8: "s8 \<in> set (matches (opt separator) s7)"
    and t8: "s' \<in> set (matches ?r9 s8)" by blast
  from cat_elem [OF t8] obtain s9 where
    s9: "s9 \<in> set (matches (Group 3 (Repeat ?d 4 (Some 4))) s8)"
    and t9: "s' \<in> set (matches WordBoundary s9)" by blast
  have g1: "groups s1 = groups s"
    using capture_free_groups [OF _ s1] by simp
  have g2: "groups s2 = groups s1"
    by (rule capture_free_groups [OF capture_free_prefix s2])
  have g3: "groups s3 = groups s2"
    by (rule capture_free_groups [OF capture_free_opt_Lit s3])
  from group_digits [OF s4] obtain a where
    a: "groups s4 = (1, a) # groups s3" "rest s3 = a @ rest s4" "length a = 3" "list_all isdigit a"
    by blast
  have g5: "groups s5 = groups s4"
    by (rule capture_free_groups [OF capture_free_opt_Lit s5])
  have g6: "groups s6 = groups s5"
    by (rule capture_free_groups [OF capture_free_opt_separator s6])
  from group_digits [OF s7] obtain b where
    b: "groups s7 = (2, b) # groups s6" "rest s6 = b @ rest s7" "length b = 3" "list_all isdigit b"
    by blast
  have g8: "groups s8 = groups s7"
    by (rule capture_free_groups [OF capture_free_opt_separator s8])
  from group_digits [OF s9] obtain c where
    c: "groups s9 = (3, c) # groups s8" "rest s8 = c @ rest s9" "length c = 4" "list_all isdigit c"
    by blast
  have g10: "groups s' = groups s9"
    using capture_free_groups [OF _ t9] by simp
  from matches_suffix [OF s1] obtain w1 where w1: "rest s = w1 @ rest s1" by blast
  from matches_suffix [OF s2] obtain w2 where w2: "rest s1 = w2 @ rest s2" by blast
  from matches_suffix [OF s3] obtain w3 where w3: "rest s2 = w3 @ rest s3" by blast
  from matches_suffix [OF s5] obtain w5 where w5: "rest s4 = w5 @ rest s5" by blast
  from matches_suffix [OF s6] obtain w6 where w6: "rest s5 = w6 @ rest s6" by blast
  from matches_suffix [OF s8] obtain w8 where w8: "rest s7 = w8 @ rest s8" by blast
  from matches_suffix [OF t9] obtain w9 where w9: "rest s9 = w9 @ rest s'" by blast
  have whole: "rest s = (w1 @ w2 @ w3) @ a @ (w5 @ w6) @ b @ w8 @ c @ w9 @ rest s'"
    by (simp add: w1 w2 w3 a(2) w5 w6 b(2) w8 c(2) w9)
  have grp: "groups s' = [(3, c), (2, b), (1, a)] @ groups s"
    by (simp add: g10 c(1) g8 b(1) g6 g5 a(1) g3 g2 g1)
  from whole grp a(3,4) b(3,4) c(3,4) show ?thesis by blast
qed

lemma scan_nil:
  assumes "m \<in> set (scan r skip p [])"
  shows "\<exists>s'. s' \<in> set (matches r \<lparr>prev = p, rest = [], groups = []\<rparr>) \<and>
           snd m = groups s' \<and> fst m = []"
proof (cases "matches r \<lparr>prev = p, rest = [], groups = []\<rparr>")
  case Nil
  with assms show ?thesis by (cases "skip = 0") simp_all
next
  case (Cons s' other)
  with assms have "snd m = groups s'" "fst m = []" by (cases "skip = 0"; simp)+
  with Cons show ?thesis by auto
qed

lemma scan_groups:
  "m \<in> set (scan r skip p t) \<Longrightarrow>
     \<exists>s s'. groups s = [] \<and> s' \<in> set (matches r s) \<and> snd m = groups s' \<and>
            fst m = consumed s s'"
proof (induction r skip p t rule: scan.induct)
  case (1 r skip p)
  let ?s = "\<lparr>prev = p, rest = [], groups = []\<rparr>"
  from scan_nil [OF "1"] obtain s' where "s' \<in> set (matches r ?s)" "snd m = groups s'" "fst m = []"
    by blast
  then have "groups ?s = [] \<and> s' \<in> set (matches r ?s) \<and> snd m = groups s' \<and>
      fst m = consumed ?s s'"
    by (simp add: consumed_def)
  then show ?case by blast
next
  case (2 r skip p c cs)
  let ?s = "\<lparr>prev = p, rest = c # cs, groups = []\<rparr>"
  note IH = "2.IH" and prems = "2.prems"
  show ?case
  proof (cases "0 < skip")
    case True
    with IH(1) prems show ?thesis by simp
  next
    case False
    show ?thesis
    proof (cases "matches r ?s")
      case Nil
      with IH(2) prems False show ?thesis by simp
    next
      case (Cons s' other)
      with prems False consider
        "m = (take (length (c # cs) - length (rest s')) (c # cs), groups s')"
        | "m \<in> set (scan r (length (c # cs) - length (rest s') - 1) (Some c) cs)"
        by (auto simp: Let_def)
      then show ?thesis
      proof cases
        case here: 1
        have "groups ?s = [] \<and> s' \<in> set (matches r ?s) \<and> snd m = groups s' \<and>
            fst m = consumed ?s s'"
          using Cons here by (simp add: consumed_def)
        then show ?thesis by blast
      next
        case later: 2
        from IH(3) [OF False Cons refl later] show ?thesis .
      qed
    qed
  qed
qed

lemma phone_match:
  assumes "m \<in> set (re_findall phone_numbers_pattern t)"
  shows "length (group_text (snd m) 1) = 3 \<and> length (group_text (snd m) 2) = 3 \<and>
         length (group_text (snd m) 3) = 4 \<and>
         list_all isdigit (group_text (snd m) 1 @ group_text (snd m) 2 @ group_text (snd m) 3) \<and>
         (\<exists>pre x y post.
            fst m = pre @ group_text (snd m) 1 @ x @ group_text (snd m) 2 @ y @
                    group_text (snd m) 3 @ post)"
proof -
  from assms scan_groups obtain s s' where
    s: "groups s = []" "s' \<in> set (matches phone_numbers_pattern s)" "snd m = groups s'"
      "fst m = consumed s s'"
    unfolding re_findall_def by blast
  from phone_groups [OF s(2)] s(1) obtain pre a x b y c post where
    whole: "rest s = pre @ a @ x @ b @ y @ c @ post @ rest s'"
    and grp: "groups s' = [(3, c), (2, b), (1, a)]"
    and len: "length a = 3" "length b = 3" "length c = 4"
    and dig: "list_all isdigit a" "list_all isdigit b" "list_all isdigit c"
    by auto
  have g: "group_text (snd m) 1 = a" "group_text (snd m) 2 = b" "group_text (snd m) 3 = c"
    by (simp_all add: s(3) grp group_text_def)
  have "rest s = (pre @ a @ x @ b @ y @ c @ post) @ rest s'" using whole by simp
  then have "consumed s s' = pre @ a @ x @ b @ y @ c @ post"
    unfolding consumed_def by (simp del: append_assoc)
  with s(4) have "fst m = pre @ a @ x @ b @ y @ c @ post" by simp
  with g len dig show ?thesis by auto
qed

lemma phone_result:
  "extract_information t ''phone_numbers'' =
     Inr (map (\<lambda>m. ''('' @ group_text (snd m) 1 @ '') '' @ group_text (snd m) 2 @ ''-'' @
                   group_text (snd m) 3)
            (re_findall phone_numbers_pattern t))"
  by (simp add: extract_information_def extract_body_def patterns_def http_400_def format_phone_def)

lemma scan_substring:
  "m \<in> set (scan r skip p t) \<Longrightarrow> \<exists>u v. t = u @ fst m @ v"
proof (induction r skip p t rule: scan.induct)
  case (1 r skip p)
  from scan_nil [OF "1"] have "fst m = []" by blast
  then show ?case by simp
next
  case (2 r skip p c cs)
  let ?s = "\<lparr>prev = p, rest = c # cs, groups = []\<rparr>"
  note IH = "2.IH" and prems = "2.prems"
  have later: "\<exists>u v. c # cs = u @ fst m @ v" if "\<exists>u v. cs = u @ fst m @ v"
  proof -
    from that obtain u v where "cs = u @ fst m @ v" by blast
    then have "c # cs = (c # u) @ fst m @ v" by simp
    then show ?thesis by blast
  qed
  show ?case
  proof (cases "0 < skip")
    case True
    with IH(1) prems later show ?thesis by simp
  next
    case False
    show ?thesis
    proof (cases "matches r ?s")
      case Nil
      with IH(2) prems False later show ?thesis by simp
    next
      case (Cons s' other)
      with prems False consider
        "m = (take (length (c # cs) - length (rest s')) (c # cs), groups s')"
        | "m \<in> set (scan r (length (c # cs) - length (rest s') - 1) (Some c) cs)"
        by (auto simp: Let_def)
      then show ?thesis
      proof cases
        case here: 1
        let ?k = "length (c # cs) - length (rest s')"
        have "c # cs = [] @ fst m @ drop ?k (c # cs)" using here by simp
        then show ?thesis by blast
      next
        case there: 2
        from IH(3) [OF False Cons refl there] later show ?thesis by blast
      qed
    qed
  qed
qed

lemma phone_example_matches:
  "re_findall phone_numbers_pattern ''ring +1 (212) 555-0199 or 4155550123.'' =
     [(''1 (212) 555-0199'', [(3, ''0199''), (2, ''555''), (1, ''212'')]),
      (''4155550123'', [(3, ''0123''), (2, ''555''), (1, ''415'')])]"
  by code_simp

text \<open>
  Claim C8: for every ASCII text, \<^verbatim>\<open>extract(text, "phone_numbers")\<close> succeeds and
  returns, for the matches of the pattern in order, the three captured groups of each
  match put together as \<^verbatim>\<open>(\<close> group 1 \<^verbatim>\<open>) \<close> group 2 \<^verbatim>\<open>-\<close> group 3. The groups
  of a match are three, three and four digits, and they lie in this order inside the
  matched text, which is a part of the input. For the text
  \<^verbatim>\<open>Call 555-123-4567 or (555) 123-4567\<close> the result is exactly two entries, both
  \<^verbatim>\<open>(555) 123-4567\<close>, and for \<^verbatim>\<open>call 212.555.0199 now\<close> it is the one entry
  \<^verbatim>\<open>(212) 555-0199\<close>.
\<close>

theorem phone_numbers_display:
  "(is_ascii text \<longrightarrow>
      extract_information text ''phone_numbers'' =
        Inr (map (\<lambda>m. ''('' @ group_text (snd m) 1 @ '') '' @ group_text (snd m) 2 @ ''-'' @
                      group_text (snd m) 3)
               (re_findall phone_numbers_pattern text)) \<and>
      list_all
        (\<lambda>m. length (group_text (snd m) 1) = 3 \<and> length (group_text (snd m) 2) = 3 \<and>
             length (group_text (snd m) 3) = 4 \<and>
             list_all isdigit
               (group_text (snd m) 1 @ group_text (snd m) 2 @ group_text (snd m) 3) \<and>
             (\<exists>pre x y post.
                fst m = pre @ group_text (snd m) 1 @ x @ group_text (snd m) 2 @ y @
                        group_text (snd m) 3 @ post) \<and>
             (\<exists>u v. text = u @ fst m @ v))
        (re_findall phone_numbers_pattern text)) \<and>
   extract_information ''Call 555-123-4567 or (555) 123-4567'' ''phone_numbers'' =
     Inr [''(555) 123-4567'', ''(555) 123-4567''] \<and>
   extract_information ''call 212.555.0199 now'' ''phone_numbers'' = Inr [''(212) 555-0199'']"
proof -
  let ?found = "re_findall phone_numbers_pattern text"
  have res: "extract_information text ''phone_numbers'' =
        Inr (map (\<lambda>m. ''('' @ group_text (snd m) 1 @ '') '' @ group_text (snd m) 2 @ ''-'' @
                      group_text (snd m) 3) ?found)"
    by (rule phone_result)
  have "length (group_text (snd m) 1) = 3 \<and> length (group_text (snd m) 2) = 3 \<and>
       length (group_text (snd m) 3) = 4 \<and>
       list_all isdigit
         (group_text (snd m) 1 @ group_text (snd m) 2 @ group_text (snd m) 3) \<and>
       (\<exists>pre x y post.
          fst m = pre @ group_text (snd m) 1 @ x @ group_text (snd m) 2 @ y @
                  group_text (snd m) 3 @ post) \<and>
       (\<exists>u v. text = u @ fst m @ v)"
    if m: "m \<in> set ?found" for m
  proof -
    from m have "\<exists>u v. text = u @ fst m @ v"
      unfolding re_findall_def by (rule scan_substring)
    with phone_match [OF m] show ?thesis by blast
  qed
  then have each: "list_all
        (\<lambda>m. length (group_text (snd m) 1) = 3 \<and> length (group_text (snd m) 2) = 3 \<and>
             length (group_text (snd m) 3) = 4 \<and>
             list_all isdigit
               (group_text (snd m) 1 @ group_text (snd m) 2 @ group_text (snd m) 3) \<and>
             (\<exists>pre x y post.
                fst m = pre @ group_text (snd m) 1 @ x @ group_text (snd m) 2 @ y @
                        group_text (snd m) 3 @ post) \<and>
             (\<exists>u v. text = u @ fst m @ v)) ?found"
    by (rule list_all_iff [THEN iffD2, OF ballI])
  have ex1: "extract_information ''Call 555-123-4567 or (555) 123-4567'' ''phone_numbers'' =
     Inr [''(555) 123-4567'', ''(555) 123-4567'']"
    by code_simp
  have ex2: "extract_information ''call 212.555.0199 now'' ''phone_numbers'' =
     Inr [''(212) 555-0199'']"
    by code_simp
  from res each ex1 ex2 show ?thesis by blast
qed

theorem phone_numbers_display_witness:
  "is_ascii ''ring +1 (212) 555-0199 or 4155550123.'' \<and>
   extract_information ''ring +1 (212) 555-0199 or 4155550123.'' ''phone_numbers'' =
     Inr [''(212) 555-0199'', ''(415) 555-0123'']"
proof -
  have a: "is_ascii ''ring +1 (212) 555-0199 or 4155550123.''" by code_simp
  from phone_numbers_display [of "''ring +1 (212) 555-0199 or 4155550123.''"] a
  have "extract_information ''ring +1 (212) 555-0199 or 4155550123.'' ''phone_numbers'' =
      Inr (map (\<lambda>m. ''('' @ group_text (snd m) 1 @ '') '' @ group_text (snd m) 2 @ ''-'' @
                    group_text (snd m) 3)
             (re_findall phone_numbers_pattern ''ring +1 (212) 555-0199 or 4155550123.''))"
    by blast
  then have "extract_information ''ring +1 (212) 555-0199 or 4155550123.'' ''phone_numbers'' =
      Inr [''(212) 555-0199'', ''(415) 555-0123'']"
    by (simp add: phone_example_matches group_text_def)
  with a show ?thesis by blast
qed

text \<open>
  Claim C9: for every text and every kind other than \<^verbatim>\<open>emails\<close>, \<^verbatim>\<open>urls\<close>,
  \<^verbatim>\<open>phone_numbers\<close>, \<^verbatim>\<open>dates\<close> and \<^verbatim>\<open>numbers\<close>, \<^verbatim>\<open>extract(text, kind)\<close>
  fails with status 400 (\<^verbatim>\<open>invalid_input\<close>), and the message names the kind and lists
  the five valid kinds.
\<close>

theorem unknown_kind_invalid_input:
  "kind \<notin> {''emails'', ''urls'', ''phone_numbers'', ''dates'', ''numbers''} \<Longrightarrow>
     extract_information text kind =
       Inl (HTTPException 400
         (''Error extracting information: Unknown extraction type '' @ [CHR 0x27] @ kind @
          [CHR 0x27] @ ''. Available: emails, urls, phone_numbers, dates, numbers'')) \<and>
     invalid_input (extract_information text kind)"
  by (simp add: extract_information_def extract_body_def patterns_def http_400_def invalid_input_def)

theorem unknown_kind_invalid_input_witness:
  "extract_information ''call me'' ''phones'' =
     Inl (HTTPException 400
       (''Error extracting information: Unknown extraction type '' @ [CHR 0x27] @ ''phones'' @
        [CHR 0x27] @ ''. Available: emails, urls, phone_numbers, dates, numbers'')) \<and>
   invalid_input (extract_information ''call me'' ''phones'')"
proof -
  have "''phones'' \<notin> {''emails'', ''urls'', ''phone_numbers'', ''dates'', ''numbers''}"
    by simp
  from unknown_kind_invalid_input [OF this] show ?thesis .
qed

section \<open>Properties of rounding\<close>

lemma pow2_bitlen:
  assumes "0 < n"
  shows "(2::rat) powi (bitlen n - 1) \<le> of_int n \<and> of_int n < (2::rat) powi (bitlen n)"
proof -
  from bitlen_bounds [OF assms] have lo: "2 ^ nat (bitlen n - 1) \<le> n" and hi: "n < 2 ^ nat (bitlen n)"
    by simp_all
  have b1: "1 \<le> bitlen n" using assms by (simp add: bitlen_alt_def)
  have "(2::rat) powi (bitlen n - 1) = of_int (2 ^ nat (bitlen n - 1))"
    using b1 by (simp add: power_int_def)
  moreover have "(2::rat) powi (bitlen n) = of_int (2 ^ nat (bitlen n))"
    using b1 by (simp add: power_int_def)
  ultimately show ?thesis
    using lo hi by (metis of_int_le_iff of_int_less_iff)
qed

lemma flog2_bounds:
  assumes "0 < q"
  shows "2 powi flog2 q \<le> q \<and> q < 2 powi (flog2 q + 1)"
proof -
  obtain n d where nd: "quotient_of q = (n, d)" by (cases "quotient_of q")
  then have q: "q = of_int n / of_int d" and d: "0 < d"
    by (simp_all add: quotient_of_div quotient_of_denom_pos)
  from assms q d have n: "0 < n" by (simp add: zero_less_divide_iff)
  let ?k = "bitlen n - bitlen d"
  from pow2_bitlen [OF n] pow2_bitlen [OF d]
  have nlo: "(2::rat) powi (bitlen n - 1) \<le> of_int n" and nhi: "of_int n < (2::rat) powi bitlen n"
    and dlo: "(2::rat) powi (bitlen d - 1) \<le> of_int d" and dhi: "of_int d < (2::rat) powi bitlen d"
    by simp_all
  have dpos: "(0::rat) < of_int d" using d by simp
  have upper: "q < 2 powi (?k + 1)"
  proof -
    have "of_int n < (2::rat) powi (?k + 1) * 2 powi (bitlen d - 1)"
      using nhi by (simp add: power_int_add [symmetric])
    also have "\<dots> \<le> 2 powi (?k + 1) * of_int d"
      using dlo by (simp add: mult_left_mono)
    finally show ?thesis using dpos by (simp add: q pos_divide_less_eq)
  qed
  have lower: "2 powi (?k - 1) \<le> q"
  proof -
    have "(2::rat) powi (?k - 1) * of_int d \<le> 2 powi (?k - 1) * 2 powi bitlen d"
      using dhi by (simp add: mult_left_mono)
    also have "\<dots> = 2 powi (bitlen n - 1)"
      by (simp add: power_int_add [symmetric])
    also have "\<dots> \<le> of_int n" by (rule nlo)
    finally show ?thesis using dpos by (simp add: q pos_le_divide_eq)
  qed
  show ?thesis
  proof (cases "2 powi ?k \<le> q")
    case True
    then have "flog2 q = ?k" by (simp add: flog2_def nd)
    with True upper show ?thesis by simp
  next
    case False
    then have "flog2 q = ?k - 1" by (simp add: flog2_def nd)
    with False lower show ?thesis by simp
  qed
qed

lemma flog2_mono:
  assumes "0 < p" "p \<le> q"
  shows "flog2 p \<le> flog2 q"
proof (rule ccontr)
  assume "\<not> flog2 p \<le> flog2 q"
  then have "flog2 q + 1 \<le> flog2 p" by simp
  then have "(2::rat) powi (flog2 q + 1) \<le> 2 powi flog2 p"
    by (intro power_int_increasing) simp_all
  with flog2_bounds [of p] flog2_bounds [of q] assms show False by simp
qed

lemma rhe_of_int: "rhe (of_int n) = n"
  by (simp add: rhe_def)

lemma rhe_bounds: "of_int (rhe x) \<le> x + 1 / 2 \<and> x - 1 / 2 \<le> of_int (rhe x)"
  unfolding rhe_def Let_def
  by (auto simp: not_less) linarith+

lemma rhe_mono:
  assumes "x \<le> y"
  shows "rhe x \<le> rhe y"
proof (cases "\<lfloor>x\<rfloor> = \<lfloor>y\<rfloor>")
  case True
  with assms show ?thesis by (auto simp: rhe_def Let_def)
next
  case False
  with assms have lt: "\<lfloor>x\<rfloor> < \<lfloor>y\<rfloor>" using floor_mono [OF assms] by simp
  have "rhe x \<le> \<lfloor>x\<rfloor> + 1" by (simp add: rhe_def Let_def)
  moreover have "\<lfloor>y\<rfloor> \<le> rhe y" by (simp add: rhe_def Let_def)
  ultimately show ?thesis using lt by simp
qed


lemma rhe_zero: "rhe 0 = 0"
  by (simp add: rhe_def)

lemma rhe_minus: "rhe (- x) = - rhe x"
proof (cases "x \<in> \<int>")
  case True
  then obtain n where "x = of_int n" by (auto elim: Ints_cases)
  then have "rhe x = n" "rhe (- x) = - n"
    using rhe_of_int [of n] rhe_of_int [of "- n"] by simp_all
  then show ?thesis by simp
next
  case False
  then have "x \<noteq> of_int \<lfloor>x\<rfloor>" by (metis Ints_of_int)
  then have fl: "\<lfloor>- x\<rfloor> = - \<lfloor>x\<rfloor> - 1"
    by (simp add: floor_minus ceiling_altdef)
  have d: "- x - of_int (- \<lfloor>x\<rfloor> - 1) = 1 - (x - of_int \<lfloor>x\<rfloor>)" by simp
  show ?thesis
    unfolding rhe_def Let_def fl d by auto
qed

lemma grid_mono: "x \<le> y \<Longrightarrow> grid e x \<le> grid e y"
  unfolding grid_def
  by (intro mult_right_mono) (simp_all add: rhe_mono divide_right_mono)

lemma grid_pow2:
  assumes "e \<le> f"
  shows "grid e (2 powi f) = 2 powi f"
proof -
  have "(2::rat) powi f / 2 powi e = 2 powi (f - e)"
    by (simp add: power_int_diff)
  also have "\<dots> = of_int (2 ^ nat (f - e))"
    using assms by (simp add: power_int_def)
  finally have "rhe (2 powi f / 2 powi e) = 2 ^ nat (f - e)"
    by (simp only: rhe_of_int)
  then have "grid e (2 powi f) = of_int (2 ^ nat (f - e)) * 2 powi e"
    by (simp add: grid_def)
  also have "\<dots> = 2 powi (f - e) * 2 powi e"
    using assms by (simp add: power_int_def)
  also have "\<dots> = 2 powi f"
    by (simp add: power_int_add [symmetric])
  finally show ?thesis .
qed

lemma rnd_grid: "q \<noteq> 0 \<Longrightarrow> rnd q = grid (max (flog2 \<bar>q\<bar> - 52) (- 1074)) q"
  by (simp add: rnd_def)

lemma rnd_pos_mono:
  assumes "0 < p" "p \<le> q"
  shows "rnd p \<le> rnd q"
proof -
  define e1 where "e1 = max (flog2 p - 52) (- 1074)"
  define e2 where "e2 = max (flog2 q - 52) (- 1074)"
  from assms have q: "0 < q" by simp
  have rp: "rnd p = grid e1 p" using assms(1) rnd_grid [of p] by (simp add: e1_def)
  have rq: "rnd q = grid e2 q" using q rnd_grid [of q] by (simp add: e2_def)
  have le: "e1 \<le> e2" using flog2_mono [OF assms] unfolding e1_def e2_def by linarith
  show ?thesis
  proof (cases "e1 = e2")
    case True
    with rp rq grid_mono [OF assms(2), of e2] show ?thesis by simp
  next
    case False
    with le have lt: "e1 < e2" by simp
    then have e2: "e2 = flog2 q - 52" unfolding e1_def e2_def by linarith
    from lt have fl: "flog2 p + 1 \<le> flog2 q" unfolding e1_def e2_def by linarith
    let ?B = "(2::rat) powi flog2 q"
    have "p < 2 powi (flog2 p + 1)" using flog2_bounds [OF assms(1)] by simp
    also have "\<dots> \<le> ?B" using fl by (intro power_int_increasing) simp_all
    finally have pB: "p \<le> ?B" by simp
    have Bq: "?B \<le> q" using flog2_bounds [OF q] by simp
    have "rnd p \<le> grid e1 ?B" unfolding rp by (rule grid_mono [OF pB])
    also have "\<dots> = ?B" using lt e2 by (intro grid_pow2) simp
    also have "\<dots> = grid e2 ?B" using e2 by (intro grid_pow2 [symmetric]) simp
    also have "\<dots> \<le> rnd q" unfolding rq by (rule grid_mono [OF Bq])
    finally show ?thesis .
  qed
qed

lemma rnd_minus: "rnd (- q) = - rnd q"
  by (simp add: rnd_def grid_def rhe_minus)

lemma rnd_nonneg: "0 \<le> q \<Longrightarrow> 0 \<le> rnd q"
proof (cases "q = 0")
  case True
  then show ?thesis by (simp add: rnd_def)
next
  case False
  assume "0 \<le> q"
  with False have "rnd q = grid (max (flog2 \<bar>q\<bar> - 52) (- 1074)) q" and "0 \<le> q"
    using rnd_grid by simp_all
  moreover have "grid e 0 = 0" for e by (simp add: grid_def rhe_zero)
  ultimately show ?thesis using grid_mono [of 0 q] by metis
qed

lemma rnd_mono:
  assumes "p \<le> q"
  shows "rnd p \<le> rnd q"
proof -
  consider "0 < p" | "p \<le> 0" "0 \<le> q" | "q < 0" using assms by linarith
  then show ?thesis
  proof cases
    case 1
    then show ?thesis using assms by (rule rnd_pos_mono)
  next
    case 2
    then have "0 \<le> rnd (- p)" "0 \<le> rnd q" by (simp_all add: rnd_nonneg)
    then show ?thesis by (simp add: rnd_minus)
  next
    case 3
    then have "rnd (- q) \<le> rnd (- p)" using assms by (intro rnd_pos_mono) simp_all
    then show ?thesis by (simp add: rnd_minus)
  qed
qed

section \<open>Properties of calculate\_statistics\<close>

lemma is_number_finite: "is_number x \<Longrightarrow> is_finite x"
  by (cases x) simp_all

lemma is_number_rnd: "is_number x \<Longrightarrow> rnd (fval x) = fval x"
  by (cases x) (simp_all add: rnd_def)

lemma is_number_range: "is_number x \<Longrightarrow> fval x \<noteq> 0 \<Longrightarrow> flog2 \<bar>fval x\<bar> < 1024"
  by (cases x) simp_all

lemma fle_finite: "is_finite x \<Longrightarrow> is_finite y \<Longrightarrow> fle x y = (fval x \<le> fval y)"
  by (cases x; cases y) (auto simp: fle_def flt_def feq_def)

lemma flt_finite: "is_finite x \<Longrightarrow> is_finite y \<Longrightarrow> flt x y = (fval x < fval y)"
  by (cases x; cases y) (auto simp: flt_def)

lemma round_float_between:
  assumes lo: "is_number lo" and hi: "is_number hi"
    and le: "fval lo \<le> q" "q \<le> fval hi"
  shows "is_finite (round_float q) \<and> fval lo \<le> fval (round_float q) \<and>
         fval (round_float q) \<le> fval hi"
proof -
  let ?r = "rnd q"
  have a: "fval lo \<le> ?r" using rnd_mono [OF le(1)] is_number_rnd [OF lo] by simp
  have b: "?r \<le> fval hi" using rnd_mono [OF le(2)] is_number_rnd [OF hi] by simp
  show ?thesis
  proof (cases "?r = 0")
    case True
    with a b show ?thesis by (simp add: round_float_def)
  next
    case False
    have small: "flog2 \<bar>?r\<bar> < 1024"
    proof (cases "0 < ?r")
      case True
      with b have "fval hi \<noteq> 0" by auto
      from is_number_range [OF hi this] flog2_mono [of ?r "fval hi"] True b
      show ?thesis by simp
    next
      case neg: False
      with False a have "fval lo \<noteq> 0" "0 < \<bar>?r\<bar>" "\<bar>?r\<bar> \<le> \<bar>fval lo\<bar>" by auto
      with is_number_range [OF lo] flog2_mono [of "\<bar>?r\<bar>" "\<bar>fval lo\<bar>"]
      show ?thesis by simp
    qed
    with False a b show ?thesis by (simp add: round_float_def)
  qed
qed

lemma min_from_number:
  "is_number m \<Longrightarrow> list_all is_number xs \<Longrightarrow>
     is_number (min_from m xs) \<and> fval (min_from m xs) \<le> fval m \<and>
     (\<forall>y \<in> set xs. fval (min_from m xs) \<le> fval y)"
proof (induction xs arbitrary: m)
  case Nil
  then show ?case by simp
next
  case (Cons x xs)
  let ?m = "if flt x m then x else m"
  from Cons.prems have x: "is_number x" and xs: "list_all is_number xs" by simp_all
  have m': "is_number ?m" using x Cons.prems(1) by simp
  have le: "fval ?m \<le> fval m" "fval ?m \<le> fval x"
    using flt_finite [OF is_number_finite [OF x] is_number_finite [OF Cons.prems(1)]]
    by auto
  from Cons.IH [OF m' xs] le show ?case by auto
qed

lemma max_from_number:
  "is_number m \<Longrightarrow> list_all is_number xs \<Longrightarrow>
     is_number (max_from m xs) \<and> fval m \<le> fval (max_from m xs) \<and>
     (\<forall>y \<in> set xs. fval y \<le> fval (max_from m xs))"
proof (induction xs arbitrary: m)
  case Nil
  then show ?case by simp
next
  case (Cons x xs)
  let ?m = "if fgt x m then x else m"
  from Cons.prems have x: "is_number x" and xs: "list_all is_number xs" by simp_all
  have m': "is_number ?m" using x Cons.prems(1) by simp
  have le: "fval m \<le> fval ?m" "fval x \<le> fval ?m"
    using flt_finite [OF is_number_finite [OF Cons.prems(1)] is_number_finite [OF x]]
    by (auto simp: fgt_def)
  from Cons.IH [OF m' xs] le show ?case by auto
qed

lemma sum_list_lower: "(\<forall>y \<in> set ys. a \<le> y) \<Longrightarrow> a * of_nat (length ys) \<le> sum_list ys"
  for a :: rat
  by (induction ys) (auto simp: algebra_simps)

lemma sum_list_upper: "(\<forall>y \<in> set ys. y \<le> b) \<Longrightarrow> sum_list ys \<le> b * of_nat (length ys)"
  for b :: rat
  by (induction ys) (auto simp: algebra_simps)

lemma average_between:
  fixes a b :: rat
  assumes "ys \<noteq> []" "\<forall>y \<in> set ys. a \<le> y" "\<forall>y \<in> set ys. y \<le> b"
  shows "a \<le> sum_list ys / of_nat (length ys) \<and> sum_list ys / of_nat (length ys) \<le> b"
proof -
  have n: "(0::rat) < of_nat (length ys)" using assms(1) by simp
  from sum_list_lower [OF assms(2)] sum_list_upper [OF assms(3)] n
  show ?thesis by (simp add: pos_le_divide_eq pos_divide_le_eq)
qed


lemma and_then_Inr: "and_then m f = Inr r \<Longrightarrow> \<exists>v. m = Inr v \<and> f v = Inr r"
  by (cases m) (simp_all add: and_then_def)

lemma statistics_body_result:
  assumes "statistics_body lib values = Inr r"
  shows "py_mean values = Inr (mean r) \<and> py_min values = Inr (min_value r) \<and>
         py_max values = Inr (max_value r) \<and>
         range_value r = fsub (max_value r) (min_value r) \<and>
         (mode r = None) = (\<not> length (py_set values) < length values)"
  using assms
  by (auto simp: statistics_body_def and_then_def split: sum.splits if_splits)

lemma calculate_statistics_Inr:
  "calculate_statistics lib values = Inr r \<Longrightarrow> statistics_body lib values = Inr r"
  by (cases "statistics_body lib values") (simp_all add: calculate_statistics_def http_400_def)

lemma set_add_length_le: "length (foldl set_add s xs) \<le> length s + length xs"
proof (induction xs arbitrary: s)
  case Nil
  then show ?case by simp
next
  case (Cons x xs)
  have "length (set_add s x) \<le> length s + 1" by (simp add: set_add_def)
  with Cons [of "set_add s x"] show ?case by simp
qed

lemma set_add_length_full:
  "(length (foldl set_add s xs) = length s + length xs) =
     (no_repeats xs \<and> (\<forall>x \<in> set xs. \<not> list_ex (\<lambda>k. feq k x) s))"
proof (induction xs arbitrary: s)
  case Nil
  then show ?case by simp
next
  case (Cons x xs)
  show ?case
  proof (cases "list_ex (\<lambda>k. feq k x) s")
    case True
    then have "set_add s x = s" by (simp add: set_add_def)
    with set_add_length_le [of s xs] True show ?thesis by simp
  next
    case False
    then have "set_add s x = s @ [x]" by (simp add: set_add_def)
    with Cons [of "s @ [x]"] False show ?thesis
      by (auto simp: list_ex_iff)
  qed
qed

lemma py_set_length: "(\<not> length (py_set values) < length values) = no_repeats values"
  using set_add_length_le [of "[]" "values"] set_add_length_full [of "[]" "values"]
  by (auto simp: py_set_def)

lemma statistics_example:
  "calculate_statistics cpython_3_11 [Fin 1, Fin 3, Fin 3] =
     Inr \<lparr>count = 3, mean = Fin (5254199565265579 / 2251799813685248), median = Fin 3,
          mode = Some (Fin 3), std_dev = Fin (1300077228592327 / 1125899906842624),
          variance = Fin (6004799503160661 / 4503599627370496), min_value = Fin 1,
          max_value = Fin 3, range_value = Fin 2, sum_value = Fin 7\<rparr>"
  by code_simp

text \<open>
  Claim C5: for every non-empty list of numbers (finite floats), the result of
  \<^verbatim>\<open>statistics\<close> satisfies \<^verbatim>\<open>max >= mean >= min\<close> in Python's comparison of floats, and
  its \<^verbatim>\<open>range\<close> is the float difference \<^verbatim>\<open>max - min\<close>. The empty list has no result
  (claim C7), so a result implies a non-empty list.
\<close>

theorem statistics_mean_between:
  assumes nums: "list_all is_number values"
    and res: "calculate_statistics lib values = Inr r"
  shows "fge (max_value r) (mean r) \<and> fge (mean r) (min_value r) \<and>
         range_value r = fsub (max_value r) (min_value r)"
proof -
  from statistics_body_result [OF calculate_statistics_Inr [OF res]]
  have mean: "py_mean values = Inr (mean r)" and lo: "py_min values = Inr (min_value r)"
    and hi: "py_max values = Inr (max_value r)"
    and range: "range_value r = fsub (max_value r) (min_value r)"
    by simp_all
  from mean obtain x xs where vs: "values = x # xs"
    by (cases "values") (simp_all add: py_mean_def)
  from nums vs have x: "is_number x" and xs: "list_all is_number xs" by simp_all
  from lo hi vs have lo': "min_value r = min_from x xs" and hi': "max_value r = max_from x xs"
    by (simp_all add: py_min_def py_max_def)
  from min_from_number [OF x xs] lo'
  have nlo: "is_number (min_value r)" and ble: "\<forall>y \<in> set (map fval values). fval (min_value r) \<le> y"
    by (auto simp: vs)
  from max_from_number [OF x xs] hi'
  have nhi: "is_number (max_value r)" and bhi: "\<forall>y \<in> set (map fval values). y \<le> fval (max_value r)"
    by (auto simp: vs)
  let ?q = "sum_list (map fval values) / of_nat (length values)"
  have "list_all is_finite values"
    using nums by (simp add: list_all_iff is_number_finite)
  with mean vs have m: "mean r = round_float ?q" by (simp add: py_mean_def)
  have "map fval values \<noteq> []" using vs by simp
  from average_between [OF this ble bhi]
  have "fval (min_value r) \<le> ?q" "?q \<le> fval (max_value r)" by simp_all
  from round_float_between [OF nlo nhi this]
  have "is_finite (mean r)" "fval (min_value r) \<le> fval (mean r)" "fval (mean r) \<le> fval (max_value r)"
    by (simp_all add: m)
  with nlo nhi range show ?thesis
    by (simp add: fge_def fle_finite is_number_finite)
qed

theorem statistics_mean_between_witness:
  "list_all is_number [Fin 1, Fin 3, Fin 3] \<and>
   calculate_statistics cpython_3_11 [Fin 1, Fin 3, Fin 3] =
     Inr \<lparr>count = 3, mean = Fin (5254199565265579 / 2251799813685248), median = Fin 3,
          mode = Some (Fin 3), std_dev = Fin (1300077228592327 / 1125899906842624),
          variance = Fin (6004799503160661 / 4503599627370496), min_value = Fin 1,
          max_value = Fin 3, range_value = Fin 2, sum_value = Fin 7\<rparr> \<and>
   fge (Fin 3) (Fin (5254199565265579 / 2251799813685248)) \<and>
   fge (Fin (5254199565265579 / 2251799813685248)) (Fin 1) \<and>
   Fin 2 = fsub (Fin 3) (Fin 1)"
proof -
  have nums: "list_all is_number [Fin 1, Fin 3, Fin 3]" by code_simp
  from statistics_mean_between [OF nums statistics_example] nums statistics_example
  show ?thesis by simp
qed

text \<open>
  Claim C6: in the result of \<^verbatim>\<open>statistics\<close>, \<^verbatim>\<open>mode\<close> is null exactly when no value
  occurs more than once: it is null when no value repeats, and it is non-null only if
  some value occurs more than once.
\<close>

theorem statistics_mode_null:
  assumes "calculate_statistics lib values = Inr r"
  shows "(mode r = None) = no_repeats values"
  using statistics_body_result [OF calculate_statistics_Inr [OF assms]] py_set_length [of "values"]
  by simp

theorem statistics_mode_null_witness:
  "calculate_statistics cpython_3_11 [Fin 1, Fin 3, Fin 3] =
     Inr \<lparr>count = 3, mean = Fin (5254199565265579 / 2251799813685248), median = Fin 3,
          mode = Some (Fin 3), std_dev = Fin (1300077228592327 / 1125899906842624),
          variance = Fin (6004799503160661 / 4503599627370496), min_value = Fin 1,
          max_value = Fin 3, range_value = Fin 2, sum_value = Fin 7\<rparr> \<and>
   \<not> no_repeats [Fin 1, Fin 3, Fin 3]"
  using statistics_mode_null [OF statistics_example] statistics_example by simp

text \<open>
  Claim C7: \<^verbatim>\<open>statistics\<close> applied to the empty list fails with status 400
  (\<^verbatim>\<open>invalid_input\<close>): \<^verbatim>\<open>statistics.mean\<close> raises before any other entry is computed.
\<close>

theorem statistics_empty_invalid_input:
  "calculate_statistics lib [] =
     Inl (HTTPException 400 ''Error calculating statistics: mean requires at least one data point'') \<and>
   invalid_input (calculate_statistics lib [])"
  by (simp add: calculate_statistics_def statistics_body_def py_mean_def and_then_def
      http_400_def invalid_input_def)

section \<open>Properties of solve\_quadratic\<close>

lemma fmul_two_zero: "is_zero a \<Longrightarrow> is_zero (fmul (Fin 2) a)"
  by (cases a) (simp_all add: fmul_def signed_zero_def)

lemma ftruediv_zero:
  "is_zero y \<Longrightarrow> ftruediv x y = Inl (ZeroDivisionError ''float division by zero'')"
  by (simp add: ftruediv_def)

lemma quadratic_body_zero:
  assumes "is_zero a"
  shows "\<exists>e. quadratic_body libm_pow a b c = Inl e"
proof -
  have dz: "ftruediv x (fmul (Fin 2) a) = Inl (ZeroDivisionError ''float division by zero'')" for x
    by (rule ftruediv_zero) (rule fmul_two_zero [OF assms])
  show ?thesis
    by (simp add: quadratic_body_def and_then_def Let_def dz split: sum.splits)
qed

lemma quadratic_0_1_1:
  "solve_quadratic libm_pow (Fin 0) (Fin 1) (Fin 1) =
     Inl (HTTPException 400 ''Error solving quadratic: float division by zero'')"
  by code_simp

text \<open>
  Claim C2: for all coefficients \<open>b\<close> and \<open>c\<close>, \<^verbatim>\<open>quadratic(0, b, c)\<close> fails with status
  400 (\<^verbatim>\<open>invalid_input\<close>), for the zero of either sign and whatever the C library's
  \<^verbatim>\<open>pow\<close> returns: every branch divides by \<^verbatim>\<open>2*a\<close>. In particular
  \<^verbatim>\<open>quadratic(0, 1, 1)\<close> fails with \<^verbatim>\<open>float division by zero\<close>.
\<close>

theorem quadratic_zero_a_invalid_input:
  "(is_zero a \<longrightarrow> invalid_input (solve_quadratic libm_pow a b c)) \<and>
   solve_quadratic libm_pow (Fin 0) (Fin 1) (Fin 1) =
     Inl (HTTPException 400 ''Error solving quadratic: float division by zero'')"
  using quadratic_body_zero [of a libm_pow b c] quadratic_0_1_1 [of libm_pow]
  by (auto simp: solve_quadratic_def http_400_def invalid_input_def)

theorem quadratic_zero_a_invalid_input_witness:
  "is_zero NegZero \<and> invalid_input (solve_quadratic rounded_pow NegZero (Fin 1) (Fin 1)) \<and>
   is_zero (Fin 0) \<and> invalid_input (solve_quadratic rounded_pow (Fin 0) (Fin 1) (Fin 1))"
proof -
  have z1: "is_zero NegZero" and z2: "is_zero (Fin 0)" by simp_all
  from quadratic_zero_a_invalid_input [of NegZero rounded_pow "Fin 1" "Fin 1"] z1
  have i1: "invalid_input (solve_quadratic rounded_pow NegZero (Fin 1) (Fin 1))" by blast
  from quadratic_zero_a_invalid_input [of "Fin 0" rounded_pow "Fin 1" "Fin 1"] z2
  have i2: "invalid_input (solve_quadratic rounded_pow (Fin 0) (Fin 1) (Fin 1))" by blast
  from z1 i1 z2 i2 show ?thesis by blast
qed

lemma quadratic_1_0_1:
  "solve_quadratic libm_pow (Fin 1) (Fin 0) (Fin 1) =
     Inr \<lparr>discriminant = Fin (- 4),
          roots = [ComplexRoot ''-0.0 + 1.0i'', ComplexRoot ''-0.0 - 1.0i''],
          root_type = ''complex''\<rparr>"
  by code_simp

text \<open>
  Claim C1, as stated, fails: the coefficients are floats (the request model declares
  \<^verbatim>\<open>a\<close>, \<^verbatim>\<open>b\<close>, \<^verbatim>\<open>c\<close> as \<^verbatim>\<open>float\<close>, so the number 0 arrives as \<^verbatim>\<open>0.0\<close>), the
  real part is \<^verbatim>\<open>-b / (2*a)\<close>, and \<^verbatim>\<open>-0.0 / 2.0\<close> is the negative zero, which Python
  prints as \<^verbatim>\<open>-0.0\<close>. The roots are not the strings \<^verbatim>\<open>0.0 + 1.0i\<close> and
  \<^verbatim>\<open>0.0 - 1.0i\<close>, with any C library (\<^verbatim>\<open>0.0 ** 2\<close> never reaches its \<^verbatim>\<open>pow\<close>).
  (Only with the Python integers 1, 0, 1 as arguments, where \<^verbatim>\<open>-0\<close> is the integer 0,
  would the real part print as \<^verbatim>\<open>0.0\<close>.)
\<close>

theorem quadratic_1_0_1_roots_counterexample:
  "\<forall>libm_pow. \<exists>r. solve_quadratic libm_pow (Fin 1) (Fin 0) (Fin 1) = Inr r \<and>
       root_type r = ''complex'' \<and>
       roots r \<noteq> [ComplexRoot ''0.0 + 1.0i'', ComplexRoot ''0.0 - 1.0i'']"
  by (simp add: quadratic_1_0_1)

text \<open>
  Claim C1, amended: for the call \<^verbatim>\<open>quadratic(1, 0, 1)\<close> the result has discriminant
  \<^verbatim>\<open>-4.0\<close>, \<^verbatim>\<open>root_type\<close> \<^verbatim>\<open>complex\<close>, and the two roots are exactly the strings
  \<^verbatim>\<open>-0.0 + 1.0i\<close> and \<^verbatim>\<open>-0.0 - 1.0i\<close>, with any C library.
\<close>

theorem quadratic_1_0_1_roots:
  "solve_quadratic libm_pow (Fin 1) (Fin 0) (Fin 1) =
     Inr \<lparr>discriminant = Fin (- 4),
          roots = [ComplexRoot ''-0.0 + 1.0i'', ComplexRoot ''-0.0 - 1.0i''],
          root_type = ''complex''\<rparr> \<and>
   is_number (Fin 1) \<and> is_number (Fin 0)"
proof -
  have "is_number (Fin 1) \<and> is_number (Fin 0)" by code_simp
  with quadratic_1_0_1 [of libm_pow] show ?thesis by simp
qed

section \<open>Properties of analyze\_text\<close>

text \<open>
  Claim C10: \<^verbatim>\<open>analyze\<close> applied to the empty string succeeds and returns
  \<^verbatim>\<open>word_count\<close> 0, \<^verbatim>\<open>sentence_count\<close> 0, \<^verbatim>\<open>paragraph_count\<close> 1, both averages the
  integer 0, every count of \<^verbatim>\<open>character_analysis\<close> 0, and the empty string for
  \<^verbatim>\<open>longest_word\<close> and \<^verbatim>\<open>shortest_word\<close>.
\<close>

theorem analyze_empty_text:
  "analyze_text [] =
     Inr \<lparr>word_count = 0, sentence_count = 0, paragraph_count = 1,
          avg_word_length = PyInt 0, avg_sentence_length = PyInt 0,
          character_analysis =
            \<lparr>total_chars = 0, chars_no_spaces = 0, uppercase = 0, lowercase = 0,
             digits = 0, special_chars = 0\<rparr>,
          longest_word = [], shortest_word = []\<rparr>"
  by (simp add: analyze_text_def analyze_body_def http_400_def py_split_def py_split_sep_def
      py_strip_def strip_where_def)

end
